theory Spec2Isabelle
  imports Main "HOL-Library.Multiset" "HOL-Library.Product_Lexorder"
begin

section \<open>Python string operations used by the scripts\<close>

text \<open>
  A Python \<open>str\<close> is modelled by its UTF-8 encoding, the text of a file by the
  bytes of the file: \<open>string\<close> is a list of bytes.  The ASCII characters the
  scripts look for (slash, underscore, hyphen, line feed) are single bytes that
  occur in no other character's encoding.
\<close>

definition startswith :: "string \<Rightarrow> string \<Rightarrow> bool" where
  "startswith s p = (take (length p) s = p)"

definition endswith :: "string \<Rightarrow> string \<Rightarrow> bool" where
  "endswith s p = (length p \<le> length s \<and> drop (length s - length p) s = p)"

text \<open>
  The characters for which \<open>str.isspace\<close> holds, each by its encoding: U+0009 to
  U+000D, U+001C to U+0020, U+0085, U+00A0, U+1680, U+2000 to U+200A, U+2028,
  U+2029, U+202F, U+205F and U+3000.
\<close>

definition whitespace :: "string list" where
  "whitespace =
     [[CHR 0x09], [CHR 0x0A], [CHR 0x0B], [CHR 0x0C], [CHR 0x0D],
      [CHR 0x1C], [CHR 0x1D], [CHR 0x1E], [CHR 0x1F], [CHR 0x20],
      [CHR 0xC2, CHR 0x85], [CHR 0xC2, CHR 0xA0],
      [CHR 0xE1, CHR 0x9A, CHR 0x80],
      [CHR 0xE2, CHR 0x80, CHR 0x80], [CHR 0xE2, CHR 0x80, CHR 0x81],
      [CHR 0xE2, CHR 0x80, CHR 0x82], [CHR 0xE2, CHR 0x80, CHR 0x83],
      [CHR 0xE2, CHR 0x80, CHR 0x84], [CHR 0xE2, CHR 0x80, CHR 0x85],
      [CHR 0xE2, CHR 0x80, CHR 0x86], [CHR 0xE2, CHR 0x80, CHR 0x87],
      [CHR 0xE2, CHR 0x80, CHR 0x88], [CHR 0xE2, CHR 0x80, CHR 0x89],
      [CHR 0xE2, CHR 0x80, CHR 0x8A],
      [CHR 0xE2, CHR 0x80, CHR 0xA8], [CHR 0xE2, CHR 0x80, CHR 0xA9],
      [CHR 0xE2, CHR 0x80, CHR 0xAF],
      [CHR 0xE2, CHR 0x81, CHR 0x9F],
      [CHR 0xE3, CHR 0x80, CHR 0x80]]"

text \<open>\<open>ws_len ws s\<close> is the length of the member of \<open>ws\<close> that \<open>s\<close> starts with,
  and 0 when it starts with none.\<close>

definition ws_len :: "string list \<Rightarrow> string \<Rightarrow> nat" where
  "ws_len ws s = (case find (startswith s) ws of None \<Rightarrow> 0 | Some w \<Rightarrow> length w)"

function lstrip_with :: "string list \<Rightarrow> string \<Rightarrow> string" where
  "lstrip_with ws s =
     (if 0 < ws_len ws s \<and> ws_len ws s \<le> length s
      then lstrip_with ws (drop (ws_len ws s) s) else s)"
  by pat_completeness auto
termination
  by (relation "measure (\<lambda>(ws, s). length s)") auto

declare lstrip_with.simps [simp del]

text \<open>\<open>str.strip()\<close>: the whitespace characters at both ends are removed.\<close>

definition strip :: "string \<Rightarrow> string" where
  "strip s = rev (lstrip_with (map rev whitespace) (rev (lstrip_with whitespace s)))"

text \<open>
  The length of the encoding of the first character of a text, which is its
  first byte and the continuation bytes that follow it; \<open>first_char s\<close> is
  \<open>s[0]\<close>.
\<close>

definition is_continuation :: "char \<Rightarrow> bool" where
  "is_continuation c = (let n = of_char c :: nat in 128 \<le> n \<and> n \<le> 191)"

definition cp_len :: "string \<Rightarrow> nat" where
  "cp_len s = (case s of [] \<Rightarrow> 0 | c # cs \<Rightarrow> Suc (length (takeWhile is_continuation cs)))"

definition first_char :: "string \<Rightarrow> string" where
  "first_char s = take (cp_len s) s"

text \<open>\<open>os.path.basename\<close> (posixpath): everything after the last slash.\<close>

definition basename :: "string \<Rightarrow> string" where
  "basename p = rev (takeWhile (\<lambda>c. c \<noteq> CHR ''/'') (rev p))"

text \<open>\<open>s.split('\n')[0]\<close>: the text before the first line feed.\<close>

definition first_line :: "string \<Rightarrow> string" where
  "first_line s = takeWhile (\<lambda>c. c \<noteq> CHR 0x0A) s"

section \<open>The Resolver: \<open>replace_video_urls.py\<close>\<close>

datatype py_error =
    TypeError | AttributeError | ValueError | IndexError | UnboundLocalError
  | UnicodeDecodeError | FileNotFoundError | JSONDecodeError | OSError

text \<open>
  What one invocation of the external signing tool (\<open>subprocess.run\<close> with
  \<open>check=True, timeout=60\<close>) can do: complete with exit status 0 and the given
  standard output, complete with exit status 0 and an output that is not UTF-8,
  exceed the timeout, exit non-zero, or not be installed.
\<close>

datatype tool_outcome =
    Completed string
  | CompletedUndecodable
  | TimeoutExpired
  | CalledProcessError
  | ToolNotFound

definition build_cos_public_url :: "string \<Rightarrow> string \<Rightarrow> string" where
  "build_cos_public_url cos_path bucket_name =
     ''https://'' @ bucket_name @ ''.cos.'' @ ''ap-shanghai'' @ ''.myqcloud.com/'' @ cos_path"

definition default_bucket :: string where
  "default_bucket = ''texttoaudio-train-1258344703''"

text \<open>The clean-up of the tool's output, shared by both scripts.\<close>

definition clean_signed_output :: "string \<Rightarrow> string" where
  "clean_signed_output out =
     (let url = first_line (strip out)
      in if startswith url [CHR ''b'', CHR 0x27] \<and> endswith url [CHR 0x27]
         then butlast (drop 2 url) else url)"

definition get_cos_signed_url :: "(string \<Rightarrow> tool_outcome) \<Rightarrow> string \<Rightarrow> py_error + string" where
  "get_cos_signed_url tool remote_file_path =
     (case tool remote_file_path of
        Completed out \<Rightarrow> Inr (clean_signed_output out)
      | CompletedUndecodable \<Rightarrow> Inl UnicodeDecodeError
      | TimeoutExpired \<Rightarrow> Inr (build_cos_public_url remote_file_path default_bucket)
      | CalledProcessError \<Rightarrow> Inr (build_cos_public_url remote_file_path default_bucket)
      | ToolNotFound \<Rightarrow> Inr (build_cos_public_url remote_file_path default_bucket))"

text \<open>
  Python dictionaries keep insertion order; they are association lists with
  distinct keys.  \<open>dict_set\<close> is \<open>d[k] = v\<close>: an existing key keeps its place.
\<close>

fun dict_set :: "('k \<times> 'v) list \<Rightarrow> 'k \<Rightarrow> 'v \<Rightarrow> ('k \<times> 'v) list" where
  "dict_set [] k v = [(k, v)]"
| "dict_set ((k', v') # d) k v = (if k' = k then (k, v) # d else (k', v') # dict_set d k v)"

text \<open>
  The loop of \<open>generate_video_url_mapping\<close>; \<open>signed_url\<close> is tested for
  truth, and the empty string is false.
\<close>

fun generate_video_url_mapping_loop ::
  "(string \<Rightarrow> tool_outcome) \<Rightarrow> (string \<times> string) list \<Rightarrow> (string \<times> string) list
     \<Rightarrow> py_error + (string \<times> string) list" where
  "generate_video_url_mapping_loop tool [] url_mapping = Inr url_mapping"
| "generate_video_url_mapping_loop tool ((filename, cos_path) # rest) url_mapping =
     (if endswith filename ''.mp4'' then
        (case get_cos_signed_url tool cos_path of
           Inl e \<Rightarrow> Inl e
         | Inr signed_url \<Rightarrow>
             if signed_url \<noteq> [] then
               generate_video_url_mapping_loop tool rest (dict_set url_mapping filename signed_url)
             else generate_video_url_mapping_loop tool rest url_mapping)
      else generate_video_url_mapping_loop tool rest url_mapping)"

definition generate_video_url_mapping ::
  "(string \<Rightarrow> tool_outcome) \<Rightarrow> (string \<times> string) list \<Rightarrow> py_error + (string \<times> string) list" where
  "generate_video_url_mapping tool file_mapping = generate_video_url_mapping_loop tool file_mapping []"

definition tool_failed :: "tool_outcome \<Rightarrow> bool" where
  "tool_failed r = (r = TimeoutExpired \<or> r = CalledProcessError \<or> r = ToolNotFound)"

text \<open>
  The outcomes after which \<open>get_cos_signed_url\<close> has a non-empty URL: the tool
  failed (the public URL is built), or it completed and its cleaned output is not
  empty.
\<close>

definition tool_gives_url :: "tool_outcome \<Rightarrow> bool" where
  "tool_gives_url r =
     (case r of
        Completed out \<Rightarrow> clean_signed_output out \<noteq> []
      | CompletedUndecodable \<Rightarrow> False
      | TimeoutExpired \<Rightarrow> True
      | CalledProcessError \<Rightarrow> True
      | ToolNotFound \<Rightarrow> True)"

text \<open>
  The names of a parsed upload-log mapping that end in \<open>.mp4\<close> and whose
  resolved URL is a non-empty string.
\<close>

definition resolved_names :: "(string \<Rightarrow> tool_outcome) \<Rightarrow> (string \<times> string) list \<Rightarrow> string set" where
  "resolved_names tool fm =
     {f. \<exists>p u. (f, p) \<in> set fm \<and> endswith f ''.mp4'' \<and> get_cos_signed_url tool p = Inr u \<and> u \<noteq> []}"

text \<open>Sample inputs, on which the definitions are evaluated.\<close>

definition sample_tool :: "string \<Rightarrow> tool_outcome" where
  "sample_tool p = (if p = ''d/a.mp4'' then Completed ''https://signed/a.mp4?sign=k'' else ToolNotFound)"

definition sample_file_mapping :: "(string \<times> string) list" where
  "sample_file_mapping = [(''a.mp4'', ''d/a.mp4''), (''b.mp4'', ''d/b.mp4''), (''notes.txt'', ''d/notes.txt'')]"

section \<open>Manifests: JSON lines and their rewriting\<close>

text \<open>
  The values \<open>json.loads\<close> produces.  An object is a Python dictionary: an
  association list in insertion order, with distinct keys.  A float is identified
  by its bit pattern; the scripts never compute with one.
\<close>

datatype json =
    JNull
  | JBool bool
  | JInt int
  | JFloat nat
  | JStr string
  | JArr "json list"
  | JObj "(string \<times> json) list"

text \<open>
  \<open>sub in s\<close> and \<open>s.split(sub, 1)[1]\<close> for strings: \<open>after_first sub s\<close> is the
  text after the first occurrence of \<open>sub\<close> in \<open>s\<close>, if there is one.
\<close>

fun after_first :: "string \<Rightarrow> string \<Rightarrow> string option" where
  "after_first sub [] = (if sub = [] then Some [] else None)"
| "after_first sub (c # cs) =
     (if startswith (c # cs) sub then Some (drop (length sub) (c # cs)) else after_first sub cs)"

text \<open>\<open>split_on P\<close> cuts a list at every element that satisfies \<open>P\<close>, as
  \<open>str.split(sep)\<close> does at every separator: it returns at least one piece.\<close>

fun split_on :: "('a \<Rightarrow> bool) \<Rightarrow> 'a list \<Rightarrow> 'a list list" where
  "split_on P [] = [[]]"
| "split_on P (c # cs) =
     (if P c then [] # split_on P cs
      else (case split_on P cs of [] \<Rightarrow> [[c]] | p # ps \<Rightarrow> (c # p) # ps))"

definition py_split :: "char \<Rightarrow> string \<Rightarrow> string list" where
  "py_split sep s = split_on (\<lambda>c. c = sep) s"

text \<open>
  The lines of a text file opened for reading: line feed, carriage return and the
  pair of both end a line (universal newlines).  Cutting at every carriage return
  and every line feed gives the same lines and some empty ones more, and the loops
  below strip each line and skip the empty ones.
\<close>

definition is_newline :: "char \<Rightarrow> bool" where
  "is_newline c = (c = CHR 0x0A \<or> c = CHR 0x0D)"

definition file_lines :: "string \<Rightarrow> string list" where
  "file_lines content = split_on is_newline content"

text \<open>What the write loop puts into the file: every line followed by a line feed.\<close>

definition write_lines :: "string list \<Rightarrow> string" where
  "write_lines ls = concat (map (\<lambda>l. l @ [CHR 0x0A]) ls)"

text \<open>The test \<open>'videos' in data\<close>, which raises on a number, a boolean and \<open>None\<close>.\<close>

fun contains_videos :: "json \<Rightarrow> py_error + bool" where
  "contains_videos (JObj d) = Inr (''videos'' \<in> fst ` set d)"
| "contains_videos (JArr xs) = Inr (JStr ''videos'' \<in> set xs)"
| "contains_videos (JStr s) = Inr (after_first ''videos'' s \<noteq> None)"
| "contains_videos JNull = Inl TypeError"
| "contains_videos (JBool b) = Inl TypeError"
| "contains_videos (JInt i) = Inl TypeError"
| "contains_videos (JFloat x) = Inl TypeError"

text \<open>
  The loop over \<open>data['videos'].items()\<close>.  \<open>os.path.basename\<close> raises on a value
  that is not a string.  A path whose file name is a key of the mapping is replaced
  in place, and the line is marked as updated.
\<close>

fun update_videos ::
  "(string \<times> string) list \<Rightarrow> (string \<times> json) list \<Rightarrow> py_error + ((string \<times> json) list \<times> bool)" where
  "update_videos url_mapping [] = Inr ([], False)"
| "update_videos url_mapping ((method, video_path) # items) =
     (case video_path of
        JStr p \<Rightarrow>
          (case update_videos url_mapping items of
             Inl e \<Rightarrow> Inl e
           | Inr (items', line_updated) \<Rightarrow>
               (case map_of url_mapping (basename p) of
                  Some url \<Rightarrow> Inr ((method, JStr url) # items', True)
                | None \<Rightarrow> Inr ((method, video_path) # items', line_updated)))
      | _ \<Rightarrow> Inl TypeError)"

text \<open>
  The body of the \<open>try\<close> block for one parsed line: the entry after the
  replacements and whether a path was replaced.  Subscripting a list or a string
  with \<open>'videos'\<close> raises \<open>TypeError\<close>; \<open>.items()\<close> on a value that is not a
  dictionary raises \<open>AttributeError\<close>.
\<close>

definition update_entry :: "(string \<times> string) list \<Rightarrow> json \<Rightarrow> py_error + (json \<times> bool)" where
  "update_entry url_mapping data =
     (case contains_videos data of
        Inl e \<Rightarrow> Inl e
      | Inr False \<Rightarrow> Inr (data, False)
      | Inr True \<Rightarrow>
          (case data of
             JObj d \<Rightarrow>
               (case map_of d ''videos'' of
                  Some (JObj videos) \<Rightarrow>
                    (case update_videos url_mapping videos of
                       Inl e \<Rightarrow> Inl e
                     | Inr (videos', line_updated) \<Rightarrow>
                         Inr (JObj (dict_set d ''videos'' (JObj videos')), line_updated))
                | _ \<Rightarrow> Inl AttributeError)
           | _ \<Rightarrow> Inl TypeError))"

text \<open>
  The loop over the lines of the file.  \<open>json.loads\<close> and \<open>json.dumps\<close> belong to
  Python's standard library and are parameters: \<open>loads\<close> returns \<open>None\<close> where
  \<open>json.loads\<close> raises \<open>JSONDecodeError\<close>, the only exception the loop catches.
\<close>

fun update_lines ::
  "(string \<Rightarrow> json option) \<Rightarrow> (json \<Rightarrow> string) \<Rightarrow> (string \<times> string) list \<Rightarrow> string list
     \<Rightarrow> py_error + (string list \<times> nat)" where
  "update_lines loads dumps url_mapping [] = Inr ([], 0)"
| "update_lines loads dumps url_mapping (raw # rest) =
     (let line = strip raw in
      if line = [] then update_lines loads dumps url_mapping rest
      else
        (case loads line of
           None \<Rightarrow>
             (case update_lines loads dumps url_mapping rest of
                Inl e \<Rightarrow> Inl e
              | Inr (updated_lines, updates_count) \<Rightarrow> Inr (line # updated_lines, updates_count))
         | Some data \<Rightarrow>
             (case update_entry url_mapping data of
                Inl e \<Rightarrow> Inl e
              | Inr (data', line_updated) \<Rightarrow>
                  (case update_lines loads dumps url_mapping rest of
                     Inl e \<Rightarrow> Inl e
                   | Inr (updated_lines, updates_count) \<Rightarrow>
                       Inr (dumps data' # updated_lines,
                            (if line_updated then 1 else 0) + updates_count)))))"

text \<open>
  The file system: the text of every existing file, by path.
  \<open>update_jsonl_file\<close> returns the file system it leaves and either the
  exception that ended it (the file is then not written) or the number of changed
  lines.
\<close>

type_synonym fs = "string \<rightharpoonup> string"

definition update_jsonl_file ::
  "(string \<Rightarrow> json option) \<Rightarrow> (json \<Rightarrow> string) \<Rightarrow> fs \<Rightarrow> string \<Rightarrow> (string \<times> string) list
     \<Rightarrow> fs \<times> (py_error + nat)" where
  "update_jsonl_file loads dumps files jsonl_file url_mapping =
     (case files jsonl_file of
        None \<Rightarrow> (files, Inr 0)
      | Some content \<Rightarrow>
          (case update_lines loads dumps url_mapping (file_lines content) of
             Inl e \<Rightarrow> (files, Inl e)
           | Inr (updated_lines, updates_count) \<Rightarrow>
               (files(jsonl_file \<mapsto> write_lines updated_lines), Inr updates_count)))"

definition create_backup :: "fs \<Rightarrow> string \<Rightarrow> fs" where
  "create_backup files file_path =
     (case files file_path of
        Some content \<Rightarrow> files(file_path @ ''.backup'' \<mapsto> content)
      | None \<Rightarrow> files)"

definition JSONL_FILES :: "string list" where
  "JSONL_FILES =
     [''src/assets/demo_videos.jsonl'',
      ''src/assets/moviegen_benchmark.jsonl'',
      ''src/assets/model_comparison_videos.jsonl'']"

section \<open>The Refresher: \<open>generate_signed_urls.py\<close>\<close>

text \<open>
  \<open>update_jsonl_files_with_signed_urls\<close>: for every manifest that exists,
  \<open>create_backup\<close> is called on the manifest's path extended by \<open>.signed\<close>, and
  then the manifest is rewritten.  An exception ends the loop.
\<close>

fun update_jsonl_files_with_signed_urls_loop ::
  "(string \<Rightarrow> json option) \<Rightarrow> (json \<Rightarrow> string) \<Rightarrow> (string \<times> string) list \<Rightarrow> string list
     \<Rightarrow> fs \<Rightarrow> fs \<times> py_error option" where
  "update_jsonl_files_with_signed_urls_loop loads dumps signed_urls [] files = (files, None)"
| "update_jsonl_files_with_signed_urls_loop loads dumps signed_urls (jsonl_file # rest) files =
     (if files jsonl_file \<noteq> None then
        (let files1 = create_backup files (jsonl_file @ ''.signed'') in
         case update_jsonl_file loads dumps files1 jsonl_file signed_urls of
           (files2, Inl e) \<Rightarrow> (files2, Some e)
         | (files2, Inr updates) \<Rightarrow>
             update_jsonl_files_with_signed_urls_loop loads dumps signed_urls rest files2)
      else update_jsonl_files_with_signed_urls_loop loads dumps signed_urls rest files)"

definition update_jsonl_files_with_signed_urls ::
  "(string \<Rightarrow> json option) \<Rightarrow> (json \<Rightarrow> string) \<Rightarrow> fs \<Rightarrow> (string \<times> string) list
     \<Rightarrow> fs \<times> py_error option" where
  "update_jsonl_files_with_signed_urls loads dumps files signed_urls =
     update_jsonl_files_with_signed_urls_loop loads dumps signed_urls JSONL_FILES files"

section \<open>What a rewriting pass does, in closed form\<close>

text \<open>The lines the loop works on: stripped, the empty ones left out.\<close>

definition kept_lines :: "string \<Rightarrow> string list" where
  "kept_lines content = filter (\<lambda>l. l \<noteq> []) (map strip (file_lines content))"

text \<open>A path is replaced when it is a string whose file name is a key of the mapping.\<close>

definition replace_path :: "(string \<times> string) list \<Rightarrow> json \<Rightarrow> json" where
  "replace_path url_mapping v =
     (case v of
        JStr p \<Rightarrow> (case map_of url_mapping (basename p) of Some url \<Rightarrow> JStr url | None \<Rightarrow> v)
      | _ \<Rightarrow> v)"

definition path_hit :: "(string \<times> string) list \<Rightarrow> json \<Rightarrow> bool" where
  "path_hit url_mapping v =
     (case v of JStr p \<Rightarrow> map_of url_mapping (basename p) \<noteq> None | _ \<Rightarrow> False)"

definition is_JStr :: "json \<Rightarrow> bool" where
  "is_JStr v = (case v of JStr p \<Rightarrow> True | _ \<Rightarrow> False)"

text \<open>The entries on which the body of the \<open>try\<close> block raises nothing.\<close>

definition well_typed_entry :: "json \<Rightarrow> bool" where
  "well_typed_entry data =
     (case data of
        JObj d \<Rightarrow>
          (case map_of d ''videos'' of
             None \<Rightarrow> True
           | Some (JObj videos) \<Rightarrow> list_all (\<lambda>kv. is_JStr (snd kv)) videos
           | Some _ \<Rightarrow> False)
      | JArr xs \<Rightarrow> JStr ''videos'' \<notin> set xs
      | JStr s \<Rightarrow> after_first ''videos'' s = None
      | _ \<Rightarrow> False)"

definition replace_entry :: "(string \<times> string) list \<Rightarrow> json \<Rightarrow> json" where
  "replace_entry url_mapping data =
     (case data of
        JObj d \<Rightarrow>
          (case map_of d ''videos'' of
             Some (JObj videos) \<Rightarrow>
               JObj (dict_set d ''videos''
                 (JObj (map (\<lambda>kv. (fst kv, replace_path url_mapping (snd kv))) videos)))
           | _ \<Rightarrow> data)
      | _ \<Rightarrow> data)"

definition entry_changed :: "(string \<times> string) list \<Rightarrow> json \<Rightarrow> bool" where
  "entry_changed url_mapping data =
     (case data of
        JObj d \<Rightarrow>
          (case map_of d ''videos'' of
             Some (JObj videos) \<Rightarrow> list_ex (\<lambda>kv. path_hit url_mapping (snd kv)) videos
           | _ \<Rightarrow> False)
      | _ \<Rightarrow> False)"

definition lines_well_typed :: "(string \<Rightarrow> json option) \<Rightarrow> string list \<Rightarrow> bool" where
  "lines_well_typed loads ls =
     list_all (\<lambda>l. case loads l of None \<Rightarrow> True | Some data \<Rightarrow> well_typed_entry data) ls"

definition out_line ::
  "(string \<Rightarrow> json option) \<Rightarrow> (json \<Rightarrow> string) \<Rightarrow> (string \<times> string) list \<Rightarrow> string \<Rightarrow> string" where
  "out_line loads dumps url_mapping l =
     (case loads l of None \<Rightarrow> l | Some data \<Rightarrow> dumps (replace_entry url_mapping data))"

definition line_changed :: "(string \<Rightarrow> json option) \<Rightarrow> (string \<times> string) list \<Rightarrow> string \<Rightarrow> bool" where
  "line_changed loads url_mapping l =
     (case loads l of None \<Rightarrow> False | Some data \<Rightarrow> entry_changed url_mapping data)"

text \<open>
  A text that is read back as the one line it is: not empty, without surrounding
  whitespace, without a line end inside.
\<close>

definition single_line :: "string \<Rightarrow> bool" where
  "single_line s = (s \<noteq> [] \<and> strip s = s \<and> \<not> list_ex is_newline s)"

text \<open>
  The entries a pass writes are read back as they were written: \<open>json.loads\<close>
  inverts \<open>json.dumps\<close> on them, and \<open>json.dumps\<close> gives one line.
\<close>

definition reads_back ::
  "(string \<Rightarrow> json option) \<Rightarrow> (json \<Rightarrow> string) \<Rightarrow> (string \<times> string) list \<Rightarrow> string list \<Rightarrow> bool" where
  "reads_back loads dumps url_mapping ls =
     list_all (\<lambda>l. case loads l of
                     None \<Rightarrow> True
                   | Some data \<Rightarrow>
                       loads (dumps (replace_entry url_mapping data)) = Some (replace_entry url_mapping data) \<and>
                       single_line (dumps (replace_entry url_mapping data))) ls"

text \<open>
  A mapping is stable when no URL in it is replaced again: the file name of the
  URL is not a key, or is the key of that same URL.
\<close>

definition stable_mapping :: "(string \<times> string) list \<Rightarrow> bool" where
  "stable_mapping url_mapping =
     list_all (\<lambda>fu. case map_of url_mapping (basename (snd fu)) of
                      None \<Rightarrow> True | Some url \<Rightarrow> url = snd fu) url_mapping"

section \<open>Sample manifests\<close>

text \<open>
  \<open>json.loads\<close> and \<open>json.dumps\<close> on the lines and entries of the sample
  manifests; every other line of the samples is not JSON.
\<close>

definition sample_line :: "string \<Rightarrow> string" where
  \<open>sample_line u = ''{"videos": {"m": "'' @ u @ ''"}}''\<close>

definition sample_entry :: "string \<Rightarrow> json" where
  "sample_entry u = JObj [(''videos'', JObj [(''m'', JStr u)])]"

definition sample_loads :: "string \<Rightarrow> json option" where
  "sample_loads l =
     (if l = sample_line ''videos/a.mp4'' then Some (sample_entry ''videos/a.mp4'')
      else if l = sample_line ''https://h/b.mp4'' then Some (sample_entry ''https://h/b.mp4'')
      else if l = sample_line ''https://h/c.mp4'' then Some (sample_entry ''https://h/c.mp4'')
      else if l = sample_line ''https://h/a.mp4?sign=k'' then Some (sample_entry ''https://h/a.mp4?sign=k'')
      else None)"

definition sample_dumps :: "json \<Rightarrow> string" where
  "sample_dumps data =
     (if data = sample_entry ''videos/a.mp4'' then sample_line ''videos/a.mp4''
      else if data = sample_entry ''https://h/b.mp4'' then sample_line ''https://h/b.mp4''
      else if data = sample_entry ''https://h/c.mp4'' then sample_line ''https://h/c.mp4''
      else if data = sample_entry ''https://h/a.mp4?sign=k'' then sample_line ''https://h/a.mp4?sign=k''
      else ''null'')"

definition chain_mapping :: "(string \<times> string) list" where
  "chain_mapping = [(''a.mp4'', ''https://h/b.mp4''), (''b.mp4'', ''https://h/c.mp4'')]"

definition signed_mapping :: "(string \<times> string) list" where
  "signed_mapping = [(''a.mp4'', ''https://h/a.mp4?sign=k'')]"

definition sample_manifest :: string where
  "sample_manifest = sample_line ''videos/a.mp4'' @ [CHR 0x0A]"

definition padded_manifest :: string where
  "padded_manifest = ''  {bad '' @ [CHR 0x0A] @ sample_line ''videos/a.mp4'' @ [CHR 0x0A]"

definition demo_path :: string where
  "demo_path = ''src/assets/demo_videos.jsonl''"

definition sample_files :: fs where
  "sample_files = [demo_path \<mapsto> sample_manifest]"

section \<open>The upload log and the Resolver's \<open>main\<close>\<close>

text \<open>
  The pattern of \<open>parse_upload_log\<close> is a sequence of literal texts and of
  character classes repeated once or more, greedily or lazily.  A class gives,
  for a text, the length of the encoding of its first character when that
  character is in the class, and 0 otherwise.  \<open>match_items\<close> matches such a
  sequence at the start of a text in the order in which a backtracking matcher
  tries the repetitions (a greedy one from the longest run down, a lazy one from
  one character up), and returns the text matched by every repetition;
  \<open>re_search\<close> tries the start positions from left to right.
\<close>

datatype quantifier = Greedy | Lazy

datatype item = Lit string | Plus quantifier "string \<Rightarrow> nat"

fun first_some :: "('a \<Rightarrow> 'b option) \<Rightarrow> 'a list \<Rightarrow> 'b option" where
  "first_some f [] = None"
| "first_some f (k # ks) = (case f k of Some r \<Rightarrow> Some r | None \<Rightarrow> first_some f ks)"

text \<open>The lengths of the runs of one, two, ... characters of a class at the
  start of a text.\<close>

function run_offsets :: "(string \<Rightarrow> nat) \<Rightarrow> string \<Rightarrow> nat list" where
  "run_offsets cls s =
     (if 0 < cls s \<and> cls s \<le> length s
      then cls s # map (\<lambda>k. cls s + k) (run_offsets cls (drop (cls s) s)) else [])"
  by pat_completeness auto
termination
  by (relation "measure (\<lambda>(cls, s). length s)") auto

declare run_offsets.simps [simp del]

definition candidates :: "quantifier \<Rightarrow> nat list \<Rightarrow> nat list" where
  "candidates q offsets = (case q of Lazy \<Rightarrow> offsets | Greedy \<Rightarrow> rev offsets)"

primrec match_items :: "item list \<Rightarrow> string \<Rightarrow> string list option" where
  "match_items [] = (\<lambda>s. Some [])"
| "match_items (i # rest) =
     (\<lambda>s. case i of
            Lit l \<Rightarrow> if startswith s l then match_items rest (drop (length l) s) else None
          | Plus q cls \<Rightarrow>
              first_some (\<lambda>k. map_option (\<lambda>gs. take k s # gs) (match_items rest (drop k s)))
                (candidates q (run_offsets cls s)))"

fun re_search :: "item list \<Rightarrow> string \<Rightarrow> string list option" where
  "re_search items [] = match_items items []"
| "re_search items (c # cs) =
     (case match_items items (c # cs) of Some gs \<Rightarrow> Some gs | None \<Rightarrow> re_search items cs)"

text \<open>
  The pattern \<^verbatim>\<open>Upload\s+(.+?)\s+=>\s+cos://[^/]+/(.+)\<close>: \<^verbatim>\<open>\s\<close> is a
  whitespace character, \<^verbatim>\<open>.\<close> any character but the line feed.
\<close>

definition space_class :: "string \<Rightarrow> nat" where
  "space_class s = ws_len whitespace s"

definition any_class :: "string \<Rightarrow> nat" where
  "any_class s = (case s of [] \<Rightarrow> 0 | c # cs \<Rightarrow> if c = CHR 0x0A then 0 else cp_len s)"

definition not_slash_class :: "string \<Rightarrow> nat" where
  "not_slash_class s = (case s of [] \<Rightarrow> 0 | c # cs \<Rightarrow> if c = CHR ''/'' then 0 else cp_len s)"

definition upload_pattern :: "item list" where
  "upload_pattern =
     [Lit ''Upload'', Plus Greedy space_class, Plus Lazy any_class, Plus Greedy space_class,
      Lit ''=>'', Plus Greedy space_class, Lit ''cos://'', Plus Greedy not_slash_class, Lit ''/'',
      Plus Greedy any_class]"

text \<open>
  The events the scripts report on the paths that end a run early, and the
  warning the Manifest Builder prints.
\<close>

datatype event =
    Error_log_file_missing
  | Error_no_file_mapping
  | Error_no_url_generated
  | Error_tool_not_installed
  | Error_mapping_file_missing
  | Error_no_cos_paths
  | Error_no_signed_urls
  | Printed string

datatype outcome = Finished | Returned_early | Raised py_error

definition UPLOAD_LOG_FILE :: string where
  "UPLOAD_LOG_FILE = ''upload_result.log''"

text \<open>
  The loop over the lines of the log.  The line end of a line takes no part in
  a match, so the pattern is searched in the line without it.
\<close>

fun parse_upload_lines :: "string list \<Rightarrow> (string \<times> string) list \<Rightarrow> (string \<times> string) list" where
  "parse_upload_lines [] file_mapping = file_mapping"
| "parse_upload_lines (line # rest) file_mapping =
     (case re_search upload_pattern line of
        Some [s1, local_path, s2, s3, bucket, cos_path] \<Rightarrow>
          parse_upload_lines rest (dict_set file_mapping (basename local_path) cos_path)
      | _ \<Rightarrow> parse_upload_lines rest file_mapping)"

definition parse_upload_log :: "fs \<Rightarrow> string \<Rightarrow> (string \<times> string) list \<times> event list" where
  "parse_upload_log files log_file =
     (case files log_file of
        None \<Rightarrow> ([], [Error_log_file_missing])
      | Some content \<Rightarrow> (parse_upload_lines (file_lines content) [], []))"

text \<open>The loop of the Resolver's \<open>main\<close> over the manifests: backup, then rewrite.\<close>

fun resolver_update_loop ::
  "(string \<Rightarrow> json option) \<Rightarrow> (json \<Rightarrow> string) \<Rightarrow> (string \<times> string) list \<Rightarrow> string list
     \<Rightarrow> fs \<Rightarrow> fs \<times> py_error option" where
  "resolver_update_loop loads dumps url_mapping [] files = (files, None)"
| "resolver_update_loop loads dumps url_mapping (jsonl_file # rest) files =
     (let files1 = create_backup files jsonl_file in
      case update_jsonl_file loads dumps files1 jsonl_file url_mapping of
        (files2, Inl e) \<Rightarrow> (files2, Some e)
      | (files2, Inr updates) \<Rightarrow> resolver_update_loop loads dumps url_mapping rest files2)"

text \<open>
  \<open>main\<close> of \<open>replace_video_urls.py\<close>.  \<open>dump_mapping\<close> is \<open>json.dump\<close> of the
  mapping with \<open>indent=2\<close>.
\<close>

definition replace_video_urls_main ::
  "(string \<Rightarrow> tool_outcome) \<Rightarrow> (string \<Rightarrow> json option) \<Rightarrow> (json \<Rightarrow> string)
     \<Rightarrow> ((string \<times> string) list \<Rightarrow> string) \<Rightarrow> fs \<Rightarrow> fs \<times> event list \<times> outcome" where
  "replace_video_urls_main tool loads dumps dump_mapping files =
     (case parse_upload_log files UPLOAD_LOG_FILE of
        (file_mapping, events) \<Rightarrow>
          if file_mapping = [] then (files, events @ [Error_no_file_mapping], Returned_early)
          else
            (case generate_video_url_mapping tool file_mapping of
               Inl e \<Rightarrow> (files, events, Raised e)
             | Inr url_mapping \<Rightarrow>
                 if url_mapping = [] then (files, events @ [Error_no_url_generated], Returned_early)
                 else
                   (case resolver_update_loop loads dumps url_mapping JSONL_FILES files of
                      (files', Some e) \<Rightarrow> (files', events, Raised e)
                    | (files', None) \<Rightarrow>
                        (files'(''video_url_mapping.json'' \<mapsto> dump_mapping url_mapping),
                         events, Finished))))"

section \<open>The Refresher's path extraction and \<open>main\<close>\<close>

definition URL_MAPPING_FILE :: string where
  "URL_MAPPING_FILE = ''video_url_mapping.json''"

definition SIGNED_URL_MAPPING_FILE :: string where
  "SIGNED_URL_MAPPING_FILE = ''signed_video_url_mapping.json''"

definition marker :: string where
  "marker = ''/hunyuanvideo-foley_demo/''"

text \<open>
  The test \<open>'/hunyuanvideo-foley_demo/' in public_url\<close> and the split that follows
  it, for whatever value the mapping file holds under a name: \<open>Inr None\<close> when the
  marker is absent.
\<close>

fun extract_cos_path :: "json \<Rightarrow> py_error + string option" where
  "extract_cos_path (JStr public_url) =
     (case after_first marker public_url of
        Some rest \<Rightarrow> Inr (Some (''hunyuanvideo-foley_demo/'' @ rest))
      | None \<Rightarrow> Inr None)"
| "extract_cos_path (JArr xs) = (if JStr marker \<in> set xs then Inl AttributeError else Inr None)"
| "extract_cos_path (JObj d) = (if marker \<in> fst ` set d then Inl AttributeError else Inr None)"
| "extract_cos_path JNull = Inl TypeError"
| "extract_cos_path (JBool b) = Inl TypeError"
| "extract_cos_path (JInt i) = Inl TypeError"
| "extract_cos_path (JFloat x) = Inl TypeError"

fun extract_cos_paths_loop ::
  "(string \<times> json) list \<Rightarrow> (string \<times> string) list \<Rightarrow> py_error + (string \<times> string) list" where
  "extract_cos_paths_loop [] cos_paths = Inr cos_paths"
| "extract_cos_paths_loop ((filename, public_url) # rest) cos_paths =
     (case extract_cos_path public_url of
        Inl e \<Rightarrow> Inl e
      | Inr (Some cos_path) \<Rightarrow> extract_cos_paths_loop rest (dict_set cos_paths filename cos_path)
      | Inr None \<Rightarrow> extract_cos_paths_loop rest cos_paths)"

text \<open>
  \<open>extract_cos_paths_from_mapping\<close>: \<open>json.load\<close> raises on a file that is not
  JSON, and \<open>.items()\<close> on a value that is not a dictionary.
\<close>

definition extract_cos_paths_from_mapping ::
  "(string \<Rightarrow> json option) \<Rightarrow> fs \<Rightarrow> (py_error + (string \<times> string) list) \<times> event list" where
  "extract_cos_paths_from_mapping loads files =
     (case files URL_MAPPING_FILE of
        None \<Rightarrow> (Inr [], [Error_mapping_file_missing])
      | Some content \<Rightarrow>
          (case loads content of
             None \<Rightarrow> (Inl JSONDecodeError, [])
           | Some (JObj url_mapping) \<Rightarrow> (extract_cos_paths_loop url_mapping [], [])
           | Some _ \<Rightarrow> (Inl AttributeError, [])))"

text \<open>
  The Refresher's own \<open>get_cos_signed_url\<close>: \<open>None\<close> where the Resolver falls
  back to the public URL.  The handler of a non-zero exit decodes what the tool
  wrote to its standard error, which raises when that is not UTF-8;
  \<open>stderr_decodable\<close> says for a path whether it is.
\<close>

definition refresher_get_cos_signed_url ::
  "(string \<Rightarrow> tool_outcome) \<Rightarrow> (string \<Rightarrow> bool) \<Rightarrow> string \<Rightarrow> py_error + string option" where
  "refresher_get_cos_signed_url tool stderr_decodable cos_path =
     (case tool cos_path of
        Completed out \<Rightarrow> Inr (Some (clean_signed_output out))
      | CompletedUndecodable \<Rightarrow> Inl UnicodeDecodeError
      | TimeoutExpired \<Rightarrow> Inr None
      | CalledProcessError \<Rightarrow>
          if stderr_decodable cos_path then Inr None else Inl UnicodeDecodeError
      | ToolNotFound \<Rightarrow> Inr None)"

fun generate_signed_urls_loop ::
  "(string \<Rightarrow> tool_outcome) \<Rightarrow> (string \<Rightarrow> bool) \<Rightarrow> (string \<times> string) list
     \<Rightarrow> (string \<times> string) list \<Rightarrow> py_error + (string \<times> string) list" where
  "generate_signed_urls_loop tool stderr_decodable [] signed_urls = Inr signed_urls"
| "generate_signed_urls_loop tool stderr_decodable ((filename, cos_path) # rest) signed_urls =
     (case refresher_get_cos_signed_url tool stderr_decodable cos_path of
        Inl e \<Rightarrow> Inl e
      | Inr (Some signed_url) \<Rightarrow>
          if signed_url \<noteq> [] then
            generate_signed_urls_loop tool stderr_decodable rest
              (dict_set signed_urls filename signed_url)
          else generate_signed_urls_loop tool stderr_decodable rest signed_urls
      | Inr None \<Rightarrow> generate_signed_urls_loop tool stderr_decodable rest signed_urls)"

definition generate_signed_urls ::
  "(string \<Rightarrow> tool_outcome) \<Rightarrow> (string \<Rightarrow> bool) \<Rightarrow> (string \<times> string) list
     \<Rightarrow> py_error + (string \<times> string) list" where
  "generate_signed_urls tool stderr_decodable cos_paths =
     generate_signed_urls_loop tool stderr_decodable cos_paths []"

text \<open>
  What \<open>coscmd --version\<close> at the start of \<open>main\<close> does: it runs and exits with
  status 0; it exits non-zero or is not installed, which \<open>main\<close> handles; or
  running it raises another exception.
\<close>

datatype check_outcome = Check_passed | Check_failed | Check_raised py_error

text \<open>\<open>main\<close> of \<open>generate_signed_urls.py\<close>.\<close>

definition generate_signed_urls_main ::
  "check_outcome \<Rightarrow> (string \<Rightarrow> tool_outcome) \<Rightarrow> (string \<Rightarrow> bool)
     \<Rightarrow> (string \<Rightarrow> json option) \<Rightarrow> (json \<Rightarrow> string)
     \<Rightarrow> ((string \<times> string) list \<Rightarrow> string) \<Rightarrow> fs \<Rightarrow> fs \<times> event list \<times> outcome" where
  "generate_signed_urls_main tool_check tool stderr_decodable loads dumps dump_mapping files =
     (case tool_check of
        Check_raised e \<Rightarrow> (files, [], Raised e)
      | Check_failed \<Rightarrow> (files, [Error_tool_not_installed], Returned_early)
      | Check_passed \<Rightarrow>
          (case extract_cos_paths_from_mapping loads files of
             (Inl e, events) \<Rightarrow> (files, events, Raised e)
           | (Inr cos_paths, events) \<Rightarrow>
               if cos_paths = [] then (files, events @ [Error_no_cos_paths], Returned_early)
               else
                 (case generate_signed_urls tool stderr_decodable cos_paths of
                    Inl e \<Rightarrow> (files, events, Raised e)
                  | Inr signed_urls \<Rightarrow>
                      if signed_urls = []
                      then (files, events @ [Error_no_signed_urls], Returned_early)
                      else
                        (case update_jsonl_files_with_signed_urls loads dumps
                                (files(SIGNED_URL_MAPPING_FILE \<mapsto> dump_mapping signed_urls))
                                signed_urls of
                           (files', Some e) \<Rightarrow> (files', events, Raised e)
                         | (files', None) \<Rightarrow> (files', events, Finished)))))"

section \<open>The Manifest Builder: \<open>generate_model_comparison.py\<close>\<close>

text \<open>
  \<open>str.replace(old, new)\<close> for a non-empty \<open>old\<close>: the occurrences are replaced
  from left to right, without overlap.
\<close>

function py_replace :: "string \<Rightarrow> string \<Rightarrow> string \<Rightarrow> string" where
  "py_replace old new [] = []"
| "py_replace old new (c # cs) =
     (if old \<noteq> [] \<and> startswith (c # cs) old
      then new @ py_replace old new (drop (length old) (c # cs))
      else c # py_replace old new cs)"
  by pat_completeness auto
termination
  by (relation "measure (\<lambda>(old, new, s). length s)") auto

text \<open>
  Three functions of Python are parameters of the definitions below, as
  \<open>json.loads\<close> and \<open>json.dumps\<close> are: \<open>py_int\<close> is \<open>int\<close> on a string, with
  \<open>None\<close> where \<open>int\<close> raises \<open>ValueError\<close>; \<open>isdigit\<close> is \<open>str.isdigit\<close>; and
  \<open>lower\<close> is \<open>str.lower\<close>.
\<close>

text \<open>
  The grouping of the video files: a dictionary from video id to a dictionary
  from model name to path.
\<close>

type_synonym groups = "(string \<times> (string \<times> string) list) list"

definition group_add :: "groups \<Rightarrow> string \<Rightarrow> string \<Rightarrow> string \<Rightarrow> groups" where
  "group_add video_groups video_id model_name path =
     dict_set video_groups video_id
       (dict_set (case map_of video_groups video_id of None \<Rightarrow> [] | Some models \<Rightarrow> models)
          model_name path)"

text \<open>
  The loop of \<open>extract_video_ids_and_models\<close>.  The variables \<open>model_name\<close> and
  \<open>video_id\<close> keep their values from one file to the next: \<open>bound\<close> holds them,
  and is \<open>None\<close> while they are unbound.  The branch \<open>len(parts) >= 2\<close> is the
  only one that can leave them as they were.
\<close>

fun extract_loop ::
  "(string \<Rightarrow> bool) \<Rightarrow> string list \<Rightarrow> (string \<times> string) option \<Rightarrow> groups
     \<Rightarrow> py_error + groups" where
  "extract_loop isdigit [] bound video_groups = Inr video_groups"
| "extract_loop isdigit (filename # rest) bound video_groups =
     (if filename = [] then Inl IndexError
      else if isdigit (first_char filename) \<and> CHR ''-'' \<in> set filename
        then extract_loop isdigit rest bound video_groups
      else if CHR ''_'' \<in> set filename then
        (let bound' =
           (if startswith filename ''Ours__128d_200k__''
            then Some (''HIFI-Foley'',
                       py_replace ''.mp4'' [] (py_replace ''Ours__128d_200k__'' [] filename))
            else
              (let parts = py_split (CHR ''_'') (py_replace ''.mp4'' [] filename)
               in if length parts \<ge> 2 then
                    (if startswith filename ''V_AURA_''
                     then Some (''V_AURA'', last parts)
                     else Some (hd parts, last parts))
                  else bound))
         in case bound' of
              None \<Rightarrow> Inl UnboundLocalError
            | Some (model_name, video_id) \<Rightarrow>
                extract_loop isdigit rest bound'
                  (group_add video_groups video_id model_name (''videos/demo_show/'' @ filename)))
      else extract_loop isdigit rest bound video_groups)"

text \<open>
  The directory \<open>public/videos/demo_show\<close> is the list of its file names in the
  order the system gives them, or \<open>None\<close> when it does not exist; \<open>glob\<close> then
  yields nothing.
\<close>

definition glob_mp4 :: "string list option \<Rightarrow> string list" where
  "glob_mp4 video_dir =
     (case video_dir of None \<Rightarrow> [] | Some names \<Rightarrow> filter (\<lambda>n. endswith n ''.mp4'') names)"

definition extract_video_ids_and_models ::
  "(string \<Rightarrow> bool) \<Rightarrow> string list option \<Rightarrow> py_error + groups" where
  "extract_video_ids_and_models isdigit video_dir = extract_loop isdigit (glob_mp4 video_dir) None []"

text \<open>
  A row of \<open>csv.DictReader\<close>: a column of the header has the cell's text, or
  \<open>None\<close> in a row that is too short.  \<open>row_get row k\<close> is \<open>row.get(k, '')\<close>.
\<close>

type_synonym row = "string \<rightharpoonup> string option"

definition row_get :: "row \<Rightarrow> string \<Rightarrow> string option" where
  "row_get r k = (case r k of None \<Rightarrow> Some [] | Some v \<Rightarrow> v)"

text \<open>
  The loop of \<open>get_prompt_from_csv\<close> over the rows from index 64 on: the caption
  of the first match (\<open>None\<close> is Python's \<open>None\<close>), or no match.
\<close>

fun get_prompt_loop ::
  "(string \<Rightarrow> int option) \<Rightarrow> row list \<Rightarrow> string \<Rightarrow> py_error + string option option" where
  "get_prompt_loop py_int [] video_id = Inr None"
| "get_prompt_loop py_int (r # rest) video_id =
     (case row_get r ''video'' of
        None \<Rightarrow> get_prompt_loop py_int rest video_id
      | Some video_path \<Rightarrow>
          if video_path = [] then get_prompt_loop py_int rest video_id
          else
            (case py_int (py_replace ''.mp4'' [] (last (py_split (CHR ''/'') video_path))) of
               None \<Rightarrow> Inl ValueError
             | Some video_name_without_ext \<Rightarrow>
                 (case py_int video_id of
                    None \<Rightarrow> Inl ValueError
                  | Some n \<Rightarrow>
                      if video_name_without_ext = n then Inr (Some (row_get r ''SoundCaption''))
                      else get_prompt_loop py_int rest video_id)))"

text \<open>The result of \<open>get_prompt_from_csv\<close>: the caption and what was printed.\<close>

definition get_prompt_from_csv ::
  "(string \<Rightarrow> int option) \<Rightarrow> row list \<Rightarrow> string \<Rightarrow> py_error + (string option \<times> event list)" where
  "get_prompt_from_csv py_int csv_data video_id =
     (case get_prompt_loop py_int (drop 64 csv_data) video_id of
        Inl e \<Rightarrow> Inl e
      | Inr (Some caption) \<Rightarrow> Inr (caption, [])
      | Inr None \<Rightarrow>
          Inr (Some [], [Printed (''Warning: No matching video found for video ID '' @ video_id)]))"

text \<open>
  The sort key \<open>int(x) if x.isdigit() else float('inf')\<close>: a pair whose first
  component says whether the key is infinite, so that every integer comes before
  infinity.  \<open>sorted\<close> computes the keys of all ids first, and is stable.
\<close>

fun video_keys ::
  "(string \<Rightarrow> int option) \<Rightarrow> (string \<Rightarrow> bool) \<Rightarrow> string list \<Rightarrow> py_error + (bool \<times> int) list" where
  "video_keys py_int isdigit [] = Inr []"
| "video_keys py_int isdigit (x # xs) =
     (if isdigit x then
        (case py_int x of
           None \<Rightarrow> Inl ValueError
         | Some n \<Rightarrow>
             (case video_keys py_int isdigit xs of
                Inl e \<Rightarrow> Inl e
              | Inr keys \<Rightarrow> Inr ((False, n) # keys)))
      else
        (case video_keys py_int isdigit xs of
           Inl e \<Rightarrow> Inl e
         | Inr keys \<Rightarrow> Inr ((True, 0) # keys)))"

definition sorted_video_ids ::
  "(string \<Rightarrow> int option) \<Rightarrow> (string \<Rightarrow> bool) \<Rightarrow> groups \<Rightarrow> py_error + string list" where
  "sorted_video_ids py_int isdigit video_groups =
     (case video_keys py_int isdigit (map fst video_groups) of
        Inl e \<Rightarrow> Inl e
      | Inr keys \<Rightarrow> Inr (map snd (sort_key fst (zip keys (map fst video_groups)))))"

definition model_mapping :: "(string \<times> string) list" where
  "model_mapping =
     [(''HIFI-Foley'', ''hifi-foley''),
      (''FoleyCrafter'', ''foleycrafter''),
      (''Frieren'', ''frieren''),
      (''MMAudio'', ''mmaudio''),
      (''ThinkSound'', ''thinksound''),
      (''V_AURA'', ''v-aura'')]"

definition mapped_name :: "(string \<Rightarrow> string) \<Rightarrow> string \<Rightarrow> string" where
  "mapped_name lower model_name =
     (case map_of model_mapping model_name of Some k \<Rightarrow> k | None \<Rightarrow> lower model_name)"

fun mapped_videos ::
  "(string \<Rightarrow> string) \<Rightarrow> (string \<times> string) list \<Rightarrow> (string \<times> json) list \<Rightarrow> (string \<times> json) list" where
  "mapped_videos lower [] videos = videos"
| "mapped_videos lower ((model_name, video_path) # rest) videos =
     mapped_videos lower rest (dict_set videos (mapped_name lower model_name) (JStr video_path))"

definition prompt_json :: "string option \<Rightarrow> json" where
  "prompt_json p = (case p of None \<Rightarrow> JNull | Some s \<Rightarrow> JStr s)"

text \<open>
  The loop that builds the entries: \<open>idx\<close> counts from 0, and the entry of the
  id at \<open>idx\<close> has \<open>sequence_id\<close> \<open>idx + 1\<close>.  The result is what was printed,
  and the entries or the exception.
\<close>

fun build_entries ::
  "(string \<Rightarrow> int option) \<Rightarrow> (string \<Rightarrow> string) \<Rightarrow> row list \<Rightarrow> groups \<Rightarrow> nat \<Rightarrow> string list
     \<Rightarrow> event list \<times> (py_error + json list)" where
  "build_entries py_int lower csv_data video_groups idx [] = ([], Inr [])"
| "build_entries py_int lower csv_data video_groups idx (video_id # rest) =
     (case get_prompt_from_csv py_int csv_data video_id of
        Inl e \<Rightarrow> ([], Inl e)
      | Inr (prompt, printed) \<Rightarrow>
          (case build_entries py_int lower csv_data video_groups (Suc idx) rest of
             (printed', Inl e) \<Rightarrow> (printed @ printed', Inl e)
           | (printed', Inr entries) \<Rightarrow>
               (printed @ printed',
                Inr (JObj [(''sequence_id'', JInt (int idx + 1)),
                           (''video_id'', JStr video_id),
                           (''prompt'', prompt_json prompt),
                           (''videos'',
                              JObj (mapped_videos lower
                                (case map_of video_groups video_id of None \<Rightarrow> [] | Some models \<Rightarrow> models)
                                []))]
                       # entries))))"

text \<open>
  \<open>read_csv_data\<close>: \<open>open\<close> raises when the file does not exist; \<open>csv_rows\<close> is
  the reading of the rows from the bytes of the file, which raises on a file that
  is not UTF-8 and where \<open>csv.DictReader\<close> raises.
\<close>

definition read_csv_data ::
  "(string \<Rightarrow> py_error + row list) \<Rightarrow> fs \<Rightarrow> string \<Rightarrow> py_error + row list" where
  "read_csv_data csv_rows files csv_path =
     (case files csv_path of None \<Rightarrow> Inl FileNotFoundError | Some content \<Rightarrow> csv_rows content)"

text \<open>
  \<open>generate_model_comparison_jsonl\<close>.  \<open>open_output\<close> is the exception that
  opening the output file for writing raises, if any (\<open>FileNotFoundError\<close> when
  \<open>src/assets\<close> does not exist).  The result is the file system, the warnings that
  were printed, and the entries or the exception.
\<close>

definition generate_model_comparison_jsonl ::
  "(string \<Rightarrow> py_error + row list) \<Rightarrow> (string \<Rightarrow> int option) \<Rightarrow> (string \<Rightarrow> bool)
     \<Rightarrow> (string \<Rightarrow> string) \<Rightarrow> (json \<Rightarrow> string) \<Rightarrow> py_error option \<Rightarrow> string list option \<Rightarrow> fs
     \<Rightarrow> fs \<times> event list \<times> (py_error + json list)" where
  "generate_model_comparison_jsonl csv_rows py_int isdigit lower dumps open_output video_dir files =
     (case read_csv_data csv_rows files ''public/test_aries_tv2a_sound.csv'' of
        Inl e \<Rightarrow> (files, [], Inl e)
      | Inr csv_data \<Rightarrow>
          (case extract_video_ids_and_models isdigit video_dir of
             Inl e \<Rightarrow> (files, [], Inl e)
           | Inr video_groups \<Rightarrow>
               (case sorted_video_ids py_int isdigit video_groups of
                  Inl e \<Rightarrow> (files, [], Inl e)
                | Inr ids \<Rightarrow>
                    (case build_entries py_int lower csv_data video_groups 0 ids of
                       (printed, Inl e) \<Rightarrow> (files, printed, Inl e)
                     | (printed, Inr jsonl_entries) \<Rightarrow>
                         (case open_output of
                            Some e \<Rightarrow> (files, printed, Inl e)
                          | None \<Rightarrow>
                              (files(''src/assets/model_comparison_videos.jsonl'' \<mapsto>
                                 write_lines (map dumps jsonl_entries)),
                               printed, Inr jsonl_entries))))))"

section \<open>Caption rows, in closed form\<close>










definition sample_int :: "string \<Rightarrow> int option" where
  "sample_int s =
     map_of [(''1'', 1), (''2'', 2), (''3'', 3), (''5'', 5), (''7'', 7), (''10'', 10),
             (''12'', 12), (''-5'', - 5)] s"

definition sample_isdigit :: "string \<Rightarrow> bool" where
  "sample_isdigit s = (s \<in> set [''1'', ''2'', ''3'', ''5'', ''7'', ''10'', ''12''])"

definition sample_lower :: "string \<Rightarrow> string" where
  "sample_lower s = (if s = ''MMAudio'' then ''mmaudio'' else if s = ''A'' then ''a'' else s)"

section \<open>A sample mapping file\<close>

text \<open>
  A saved mapping with a public URL under the marker and a URL without it, as
  \<open>json.dump\<close> with \<open>indent=2\<close> writes it, and \<open>json.loads\<close> on that text.
\<close>

definition saved_mapping :: "(string \<times> string) list" where
  "saved_mapping =
     [(''a.mp4'',
       ''https://texttoaudio-train-1258344703.cos.ap-shanghai.myqcloud.com/hunyuanvideo-foley_demo/x/a.mp4''),
      (''b.mp4'', ''https://example.com/other/b.mp4'')]"

definition saved_mapping_text :: string where
  \<open>saved_mapping_text =
     ''{'' @ [CHR 0x0A] @
     ''  "a.mp4": "https://texttoaudio-train-1258344703.cos.ap-shanghai.myqcloud.com/hunyuanvideo-foley_demo/x/a.mp4",''
       @ [CHR 0x0A] @
     ''  "b.mp4": "https://example.com/other/b.mp4"'' @ [CHR 0x0A] @
     ''}''\<close>

definition saved_mapping_loads :: "string \<Rightarrow> json option" where
  "saved_mapping_loads content =
     (if content = saved_mapping_text
      then Some (JObj (map (\<lambda>fu. (fst fu, JStr (snd fu))) saved_mapping))
      else None)"

section \<open>The file name policy and the order of the entries, in closed form\<close>

text \<open>
  The policy for one file name: the model and the id it contributes, if any.
  Removing the extension and the prefix of the proposed model means removing every
  occurrence of their text.
\<close>

definition parse_filename :: "(string \<Rightarrow> bool) \<Rightarrow> string \<Rightarrow> (string \<times> string) option" where
  "parse_filename isdigit filename =
     (let tokens = py_split (CHR ''_'') (py_replace ''.mp4'' [] filename) in
      if isdigit (first_char filename) \<and> CHR ''-'' \<in> set filename then None
      else if startswith filename ''Ours__128d_200k__''
        then Some (''HIFI-Foley'',
                   py_replace ''.mp4'' [] (py_replace ''Ours__128d_200k__'' [] filename))
      else if startswith filename ''V_AURA_'' then Some (''V_AURA'', last tokens)
      else if length tokens < 2 then None
      else Some (hd tokens, last tokens))"

definition add_file :: "(string \<Rightarrow> bool) \<Rightarrow> string \<Rightarrow> groups \<Rightarrow> groups" where
  "add_file isdigit filename video_groups =
     (case parse_filename isdigit filename of
        None \<Rightarrow> video_groups
      | Some (model_name, video_id) \<Rightarrow>
          group_add video_groups video_id model_name (''videos/demo_show/'' @ filename))"

text \<open>The name without its extension, when the extension is taken off the end only.\<close>

definition strip_extension :: "string \<Rightarrow> string" where
  "strip_extension filename =
     (if endswith filename ''.mp4'' then take (length filename - 4) filename else filename)"








section \<open>Properties of URL resolution\<close>

text \<open>The equations that evaluate \<open>strip\<close> on a given text.\<close>

lemmas strip_eval = strip_def lstrip_with.simps ws_len_def whitespace_def startswith_def

text \<open>
  C7.  When the signing tool is not installed, exceeds the timeout or exits
  non-zero for a remote path, the Resolver's URL for that path is the public URL
  built from the fixed bucket name and region template and that path; when the
  tool completes with a decodable output, the URL comes from that output and the
  template is not used.
\<close>

theorem get_cos_signed_url_fallback:
  "(tool_failed (tool p) \<longrightarrow>
      get_cos_signed_url tool p =
        Inr (''https://texttoaudio-train-1258344703.cos.ap-shanghai.myqcloud.com/'' @ p)) \<and>
   (tool p = Completed out \<longrightarrow> get_cos_signed_url tool p = Inr (clean_signed_output out))"
  by (auto simp: tool_failed_def get_cos_signed_url_def build_cos_public_url_def default_bucket_def)

theorem get_cos_signed_url_fallback_witness:
  "tool_failed ((\<lambda>_. ToolNotFound) ''hunyuanvideo-foley_demo/x/a.mp4'') \<and>
   get_cos_signed_url (\<lambda>_. ToolNotFound) ''hunyuanvideo-foley_demo/x/a.mp4'' =
     Inr ''https://texttoaudio-train-1258344703.cos.ap-shanghai.myqcloud.com/hunyuanvideo-foley_demo/x/a.mp4'' \<and>
   (\<lambda>_. Completed ''https://signed/a.mp4?sign=k'') ''hunyuanvideo-foley_demo/x/a.mp4''
      = Completed ''https://signed/a.mp4?sign=k'' \<and>
   get_cos_signed_url (\<lambda>_. Completed ''https://signed/a.mp4?sign=k'') ''hunyuanvideo-foley_demo/x/a.mp4''
      = Inr (clean_signed_output ''https://signed/a.mp4?sign=k'')"
  using get_cos_signed_url_fallback [of "\<lambda>_. ToolNotFound" "''hunyuanvideo-foley_demo/x/a.mp4''"]
        get_cos_signed_url_fallback [of "\<lambda>_. Completed ''https://signed/a.mp4?sign=k''"
          "''hunyuanvideo-foley_demo/x/a.mp4''" "''https://signed/a.mp4?sign=k''"]
  by (simp add: tool_failed_def)

subsection \<open>The key set of the Resolver's mapping\<close>

lemma dict_set_keys: "fst ` set (dict_set d k v) = insert k (fst ` set d)"
  by (induction d k v rule: dict_set.induct) auto

lemma resolved_names_Nil: "resolved_names tool [] = {}"
  by (simp add: resolved_names_def)

lemma resolved_names_Cons:
  "resolved_names tool ((f, p) # fm) =
     (if endswith f ''.mp4'' \<and> (\<exists>u. get_cos_signed_url tool p = Inr u \<and> u \<noteq> [])
      then insert f (resolved_names tool fm) else resolved_names tool fm)"
  by (auto simp: resolved_names_def)

lemma build_cos_public_url_nonempty: "build_cos_public_url p b \<noteq> []"
  by (simp add: build_cos_public_url_def)

lemma get_cos_signed_url_gives_url:
  "tool_gives_url (tool p) \<Longrightarrow> \<exists>u. get_cos_signed_url tool p = Inr u \<and> u \<noteq> []"
  by (cases "tool p")
     (simp_all add: tool_gives_url_def get_cos_signed_url_def build_cos_public_url_nonempty)

lemma resolved_names_all_urls:
  assumes "list_all (\<lambda>p. tool_gives_url (tool p)) (map snd fm)"
  shows "resolved_names tool fm = {f \<in> fst ` set fm. endswith f ''.mp4''}"
  using assms
proof (induction fm)
  case Nil
  then show ?case by (simp add: resolved_names_Nil)
next
  case (Cons a fm)
  obtain f p where a: "a = (f, p)" by (cases a)
  have "tool_gives_url (tool p)" using Cons.prems by (simp add: a)
  then have "\<exists>u. get_cos_signed_url tool p = Inr u \<and> u \<noteq> []"
    by (rule get_cos_signed_url_gives_url)
  then show ?case
    using Cons by (auto simp: a resolved_names_Cons)
qed

lemma generate_video_url_mapping_loop_keys:
  "generate_video_url_mapping_loop tool fm acc = Inr m \<Longrightarrow>
     fst ` set m = fst ` set acc \<union> resolved_names tool fm"
proof (induction fm arbitrary: acc)
  case Nil
  then show ?case by (simp add: resolved_names_Nil)
next
  case (Cons a fm)
  obtain f p where a: "a = (f, p)" by (cases a)
  show ?case
  proof (cases "endswith f ''.mp4''")
    case False
    then show ?thesis using Cons.prems Cons.IH [of acc] by (simp add: a resolved_names_Cons)
  next
    case True
    show ?thesis
    proof (cases "get_cos_signed_url tool p")
      case (Inl e)
      then show ?thesis using Cons.prems True by (simp add: a)
    next
      case (Inr u)
      show ?thesis
      proof (cases "u = []")
        case True
        then show ?thesis using Cons.prems Cons.IH [of acc] Inr \<open>endswith f ''.mp4''\<close>
          by (simp add: a resolved_names_Cons)
      next
        case False
        have "fst ` set m = fst ` set (dict_set acc f u) \<union> resolved_names tool fm"
          using Cons.prems Cons.IH [of "dict_set acc f u"] Inr False \<open>endswith f ''.mp4''\<close>
          by (simp add: a)
        then show ?thesis using Inr False \<open>endswith f ''.mp4''\<close>
          by (simp add: a dict_set_keys resolved_names_Cons)
      qed
    qed
  qed
qed

lemma generate_video_url_mapping_loop_total:
  "list_all (\<lambda>p. tool p \<noteq> CompletedUndecodable) (map snd fm) \<Longrightarrow>
     \<exists>m. generate_video_url_mapping_loop tool fm acc = Inr m"
proof (induction fm arbitrary: acc)
  case Nil
  then show ?case by simp
next
  case (Cons a fm)
  obtain f p where a: "a = (f, p)" by (cases a)
  have "tool p \<noteq> CompletedUndecodable" using Cons.prems by (simp add: a)
  then obtain u where u: "get_cos_signed_url tool p = Inr u"
    by (cases "tool p") (simp_all add: get_cos_signed_url_def)
  show ?case using Cons.IH Cons.prems by (simp add: a u)
qed

text \<open>
  C10, as claimed, fails: when the signing tool exits with status 0 and prints
  nothing, \<open>get_cos_signed_url\<close> returns the empty string, the test
  \<open>if signed_url\<close> fails, and the \<open>.mp4\<close> name is left out of the mapping.
\<close>

theorem generate_video_url_mapping_empty_output_counterexample:
  "endswith ''a.mp4'' ''.mp4'' \<and>
   get_cos_signed_url (\<lambda>_. Completed []) ''d/a.mp4'' = Inr [] \<and>
   generate_video_url_mapping (\<lambda>_. Completed []) [(''a.mp4'', ''d/a.mp4'')] = Inr []"
  by (simp add: generate_video_url_mapping_def get_cos_signed_url_def clean_signed_output_def
      endswith_def strip_eval first_line_def)

text \<open>
  C10, amended.  Whenever the tool's output can be decoded,
  \<open>get_cos_signed_url\<close> returns a string and never a failure value, but the
  string can be empty; \<open>generate_video_url_mapping\<close> then returns a mapping whose
  key set is the set of \<open>.mp4\<close>-suffixed names of the upload-log mapping whose
  resolved URL is not empty.  When for every path the tool either fails (the public
  URL is used) or prints a non-empty URL, the key set is exactly the set of
  \<open>.mp4\<close>-suffixed names.
\<close>

theorem generate_video_url_mapping_keys:
  assumes "list_all (\<lambda>p. tool p \<noteq> CompletedUndecodable) (map snd fm)"
  shows "\<exists>m. generate_video_url_mapping tool fm = Inr m \<and>
           fst ` set m = resolved_names tool fm \<and>
           (list_all (\<lambda>p. tool_gives_url (tool p)) (map snd fm) \<longrightarrow>
              fst ` set m = {f \<in> fst ` set fm. endswith f ''.mp4''})"
proof -
  obtain m where m: "generate_video_url_mapping_loop tool fm [] = Inr m"
    using generate_video_url_mapping_loop_total [OF assms] by blast
  have "fst ` set m = resolved_names tool fm"
    using generate_video_url_mapping_loop_keys [OF m] by simp
  then show ?thesis
    using m resolved_names_all_urls [of tool fm]
    by (auto simp: generate_video_url_mapping_def)
qed

theorem generate_video_url_mapping_keys_witness:
  "list_all (\<lambda>p. sample_tool p \<noteq> CompletedUndecodable) (map snd sample_file_mapping) \<and>
   list_all (\<lambda>p. tool_gives_url (sample_tool p)) (map snd sample_file_mapping) \<and>
   (\<exists>m. generate_video_url_mapping sample_tool sample_file_mapping = Inr m \<and>
        fst ` set m = {''a.mp4'', ''b.mp4''})"
proof -
  have h: "list_all (\<lambda>p. sample_tool p \<noteq> CompletedUndecodable) (map snd sample_file_mapping)"
    by (simp add: sample_tool_def sample_file_mapping_def)
  have g: "list_all (\<lambda>p. tool_gives_url (sample_tool p)) (map snd sample_file_mapping)"
    by (simp add: sample_tool_def sample_file_mapping_def tool_gives_url_def
        clean_signed_output_def strip_eval first_line_def)
  have e: "{f \<in> fst ` set sample_file_mapping. endswith f ''.mp4''} = {''a.mp4'', ''b.mp4''}"
    by (auto simp: endswith_def sample_file_mapping_def)
  have "\<exists>m. generate_video_url_mapping sample_tool sample_file_mapping = Inr m \<and>
        fst ` set m = {''a.mp4'', ''b.mp4''}"
    using generate_video_url_mapping_keys [OF h] g e by auto
  then show ?thesis
    using h g by simp
qed

section \<open>Properties of the rewriting pass\<close>

subsection \<open>The pass in closed form\<close>

lemma update_videos_closed:
  "list_all (\<lambda>kv. is_JStr (snd kv)) videos \<Longrightarrow>
     update_videos m videos =
       Inr (map (\<lambda>kv. (fst kv, replace_path m (snd kv))) videos,
            list_ex (\<lambda>kv. path_hit m (snd kv)) videos)"
proof (induction videos)
  case Nil
  then show ?case by simp
next
  case (Cons a videos)
  obtain k v where a: "a = (k, v)" by (cases a)
  from Cons.prems obtain p where v: "v = JStr p"
    by (cases v) (simp_all add: a is_JStr_def)
  from Cons show ?case
    by (simp add: a v replace_path_def path_hit_def split: option.splits)
qed

lemma update_videos_raises:
  "\<not> list_all (\<lambda>kv. is_JStr (snd kv)) videos \<Longrightarrow> update_videos m videos = Inl TypeError"
proof (induction videos)
  case Nil
  then show ?case by simp
next
  case (Cons a videos)
  obtain k v where a: "a = (k, v)" by (cases a)
  show ?case
  proof (cases v)
    case (JStr p)
    then have "\<not> list_all (\<lambda>kv. is_JStr (snd kv)) videos"
      using Cons.prems by (simp add: a is_JStr_def)
    then show ?thesis using Cons.IH by (simp add: a JStr)
  qed (simp_all add: a)
qed

lemma map_of_videos_mem: "map_of d k = Some v \<Longrightarrow> k \<in> fst ` set d"
  by (metis domI dom_map_of_conv_image_fst)

lemma map_of_videos_None: "map_of d k = None \<Longrightarrow> k \<notin> fst ` set d"
  by (simp add: map_of_eq_None_iff)

lemma update_entry_closed:
  "well_typed_entry data \<Longrightarrow>
     update_entry m data = Inr (replace_entry m data, entry_changed m data)"
proof (cases data)
  case (JObj d)
  assume w: "well_typed_entry data"
  show ?thesis
  proof (cases "map_of d ''videos''")
    case None
    then show ?thesis
      using map_of_videos_None [OF None]
      by (simp add: JObj update_entry_def replace_entry_def entry_changed_def)
  next
    case (Some vs)
    have mem: "''videos'' \<in> fst ` set d" using Some by (rule map_of_videos_mem)
    from w Some obtain videos where vs: "vs = JObj videos"
      and ok: "list_all (\<lambda>kv. is_JStr (snd kv)) videos"
      by (cases vs) (simp_all add: JObj well_typed_entry_def)
    show ?thesis
      using mem Some update_videos_closed [OF ok, of m]
      by (simp add: JObj vs update_entry_def replace_entry_def entry_changed_def)
  qed
qed (simp_all add: update_entry_def replace_entry_def entry_changed_def well_typed_entry_def)

lemma update_entry_raises:
  "\<not> well_typed_entry data \<Longrightarrow> \<exists>e. update_entry m data = Inl e"
proof (cases data)
  case (JObj d)
  assume w: "\<not> well_typed_entry data"
  show ?thesis
  proof (cases "map_of d ''videos''")
    case None
    then show ?thesis using w by (simp add: JObj well_typed_entry_def)
  next
    case (Some vs)
    have mem: "''videos'' \<in> fst ` set d" using Some by (rule map_of_videos_mem)
    show ?thesis
    proof (cases vs)
      case (JObj videos)
      then have "\<not> list_all (\<lambda>kv. is_JStr (snd kv)) videos"
        using w Some \<open>data = JObj d\<close> by (simp add: well_typed_entry_def)
      then show ?thesis
        using mem Some update_videos_raises [of videos m]
        by (simp add: \<open>data = JObj d\<close> JObj update_entry_def)
    qed (use mem Some in \<open>simp_all add: \<open>data = JObj d\<close> update_entry_def\<close>)
  qed
qed (simp_all add: update_entry_def well_typed_entry_def)

lemma update_lines_closed:
  "lines_well_typed loads (filter (\<lambda>l. l \<noteq> []) (map strip raws)) \<Longrightarrow>
     update_lines loads dumps m raws =
       Inr (map (out_line loads dumps m) (filter (\<lambda>l. l \<noteq> []) (map strip raws)),
            length (filter (line_changed loads m) (filter (\<lambda>l. l \<noteq> []) (map strip raws))))"
proof (induction raws)
  case Nil
  then show ?case by simp
next
  case (Cons raw raws)
  show ?case
  proof (cases "strip raw = []")
    case True
    then show ?thesis using Cons by simp
  next
    case False
    have rest: "lines_well_typed loads (filter (\<lambda>l. l \<noteq> []) (map strip raws))"
      using Cons.prems False by (simp add: lines_well_typed_def)
    show ?thesis
    proof (cases "loads (strip raw)")
      case None
      then show ?thesis
        using False Cons.IH [OF rest] by (simp add: out_line_def line_changed_def)
    next
      case (Some data)
      have "well_typed_entry data"
        using Cons.prems False Some by (simp add: lines_well_typed_def)
      then show ?thesis
        using False Some Cons.IH [OF rest] update_entry_closed [of data m]
        by (simp add: out_line_def line_changed_def)
    qed
  qed
qed

subsection \<open>Lines that are read back as written\<close>

lemma lstrip_with_step:
  "0 < ws_len ws s \<and> ws_len ws s \<le> length s \<Longrightarrow>
     lstrip_with ws s = lstrip_with ws (drop (ws_len ws s) s)"
  by (subst lstrip_with.simps) (rule if_P)

lemma lstrip_with_stop:
  "\<not> (0 < ws_len ws s \<and> ws_len ws s \<le> length s) \<Longrightarrow> lstrip_with ws s = s"
  by (subst lstrip_with.simps) (rule if_not_P)

lemma lstrip_with_suffix: "\<exists>pre. s = pre @ lstrip_with ws s"
proof (induction ws s rule: lstrip_with.induct)
  case (1 ws s)
  show ?case
  proof (cases "0 < ws_len ws s \<and> ws_len ws s \<le> length s")
    case True
    then obtain pre where d: "drop (ws_len ws s) s = pre @ lstrip_with ws (drop (ws_len ws s) s)"
      using 1 by blast
    have "take (ws_len ws s) s @ drop (ws_len ws s) s = s" by simp
    then have "take (ws_len ws s) s @ pre @ lstrip_with ws (drop (ws_len ws s) s) = s"
      by (simp only: d [symmetric])
    then have "s = (take (ws_len ws s) s @ pre) @ lstrip_with ws s"
      by (simp only: lstrip_with_step [OF True] append_assoc)
    then show ?thesis by (rule exI)
  next
    case False
    have "s = [] @ lstrip_with ws s" by (simp only: lstrip_with_stop [OF False] append_Nil)
    then show ?thesis by (rule exI)
  qed
qed

lemma length_lstrip_with: "length (lstrip_with ws s) \<le> length s"
proof -
  obtain pre where p: "s = pre @ lstrip_with ws s" using lstrip_with_suffix by blast
  have "length (pre @ lstrip_with ws s) = length pre + length (lstrip_with ws s)" by simp
  then have "length s = length pre + length (lstrip_with ws s)" by (simp only: p [symmetric])
  then show ?thesis by simp
qed

lemma lstrip_with_fixed:
  "lstrip_with ws s = s \<longleftrightarrow> \<not> (0 < ws_len ws s \<and> ws_len ws s \<le> length s)"
proof (cases "0 < ws_len ws s \<and> ws_len ws s \<le> length s")
  case True
  have "length (lstrip_with ws (drop (ws_len ws s) s)) \<le> length (drop (ws_len ws s) s)"
    by (rule length_lstrip_with)
  moreover have "length (drop (ws_len ws s) s) = length s - ws_len ws s" by simp
  ultimately have "length (lstrip_with ws (drop (ws_len ws s) s)) < length s"
    using True by arith
  then have "length (lstrip_with ws s) < length s"
    by (simp only: lstrip_with_step [OF True])
  then have "lstrip_with ws s \<noteq> s" by auto
  then show ?thesis using True by simp
next
  case False
  show ?thesis using False lstrip_with_stop [OF False] by simp
qed

lemma lstrip_with_idem: "lstrip_with ws (lstrip_with ws s) = lstrip_with ws s"
proof (induction ws s rule: lstrip_with.induct)
  case (1 ws s)
  show ?case
  proof (cases "0 < ws_len ws s \<and> ws_len ws s \<le> length s")
    case True
    have "lstrip_with ws (lstrip_with ws (drop (ws_len ws s) s)) = lstrip_with ws (drop (ws_len ws s) s)"
      using True by (rule 1)
    then show ?thesis by (simp only: lstrip_with_step [OF True])
  next
    case False
    show ?thesis by (simp only: lstrip_with_stop [OF False])
  qed
qed

lemma startswith_length: "startswith s w \<Longrightarrow> length w \<le> length s"
proof -
  assume "startswith s w"
  then have "length (take (length w) s) = length w" by (simp add: startswith_def)
  then have "min (length s) (length w) = length w" by (simp only: length_take)
  then show ?thesis by simp
qed

lemma startswith_append: "startswith r w \<Longrightarrow> startswith (r @ post) w"
proof -
  assume a: "startswith r w"
  then have "length w \<le> length r" by (rule startswith_length)
  then show ?thesis using a by (simp add: startswith_def)
qed

lemma ws_len_positive:
  assumes "[] \<notin> set ws"
  shows "(\<exists>w \<in> set ws. startswith s w) \<longleftrightarrow> 0 < ws_len ws s \<and> ws_len ws s \<le> length s"
proof (cases "find (startswith s) ws")
  case None
  then have "ws_len ws s = 0" by (simp add: ws_len_def)
  moreover have "\<not> (\<exists>w \<in> set ws. startswith s w)"
    using None by (simp add: find_None_iff)
  ultimately show ?thesis by simp
next
  case (Some w)
  then have m: "w \<in> set ws" and sw: "startswith s w"
    by (auto simp: find_Some_iff)
  have "w \<noteq> []" using m assms by auto
  moreover have "length w \<le> length s" using sw by (rule startswith_length)
  ultimately have "0 < ws_len ws s \<and> ws_len ws s \<le> length s"
    by (simp add: ws_len_def Some)
  then show ?thesis using m sw by blast
qed

lemma strip_prefix_of: "\<exists>post. t = rev (lstrip_with ws (rev t)) @ post"
proof -
  obtain pre where p: "rev t = pre @ lstrip_with ws (rev t)"
    using lstrip_with_suffix by blast
  have "rev (rev t) = rev (pre @ lstrip_with ws (rev t))" by (simp only: p [symmetric])
  then have "t = rev (lstrip_with ws (rev t)) @ rev pre" by (simp only: rev_rev_ident rev_append)
  then show ?thesis by (rule exI)
qed

lemma whitespace_nonempty: "[] \<notin> set whitespace"
  by (simp add: whitespace_def)

lemma strip_idem: "strip (strip s) = strip s"
proof -
  define t where "t = lstrip_with whitespace s"
  define r where "r = rev (lstrip_with (map rev whitespace) (rev t))"
  have s: "strip s = r" by (simp add: strip_def t_def r_def)
  have tfix: "lstrip_with whitespace t = t" by (simp add: t_def lstrip_with_idem)
  obtain post where post: "t = r @ post" unfolding r_def using strip_prefix_of by blast
  have "lstrip_with whitespace r = r"
  proof (rule ccontr)
    assume "lstrip_with whitespace r \<noteq> r"
    then have "0 < ws_len whitespace r \<and> ws_len whitespace r \<le> length r"
      by (simp add: lstrip_with_fixed)
    then obtain w where w: "w \<in> set whitespace" "startswith r w"
      using ws_len_positive [OF whitespace_nonempty, of r] by blast
    have "startswith (r @ post) w" using w(2) by (rule startswith_append)
    then have "startswith t w" by (simp only: post [symmetric])
    then have "\<exists>w \<in> set whitespace. startswith t w" using w(1) by blast
    then have "0 < ws_len whitespace t \<and> ws_len whitespace t \<le> length t"
      using ws_len_positive [OF whitespace_nonempty, of t] by blast
    then show False using tfix by (simp add: lstrip_with_fixed)
  qed
  moreover have "rev (lstrip_with (map rev whitespace) (rev r)) = r"
    by (simp add: r_def lstrip_with_idem)
  ultimately have "strip r = r" by (simp add: strip_def)
  then show ?thesis by (simp add: s)
qed

lemma set_lstrip_with: "set (lstrip_with ws s) \<subseteq> set s"
proof -
  obtain pre where p: "s = pre @ lstrip_with ws s" using lstrip_with_suffix by blast
  have "set (pre @ lstrip_with ws s) = set pre \<union> set (lstrip_with ws s)" by simp
  then have "set s = set pre \<union> set (lstrip_with ws s)" by (simp only: p [symmetric])
  then show ?thesis by blast
qed

lemma set_strip: "set (strip s) \<subseteq> set s"
proof -
  have "set (lstrip_with (map rev whitespace) (rev (lstrip_with whitespace s)))
      \<subseteq> set (rev (lstrip_with whitespace s))"
    by (rule set_lstrip_with)
  then have "set (strip s) \<subseteq> set (lstrip_with whitespace s)"
    by (simp add: strip_def)
  also have "\<dots> \<subseteq> set s" by (rule set_lstrip_with)
  finally show ?thesis .
qed

lemma split_on_nonempty: "split_on P xs \<noteq> []"
  by (induction xs) (auto split: list.splits)

lemma split_on_pieces: "l \<in> set (split_on P xs) \<Longrightarrow> \<not> list_ex P l"
proof (induction xs arbitrary: l)
  case Nil
  then show ?case by simp
next
  case (Cons c cs)
  show ?case
  proof (cases "P c")
    case True
    then show ?thesis using Cons by auto
  next
    case False
    obtain p ps where sp: "split_on P cs = p # ps"
      using split_on_nonempty [of P cs] by (cases "split_on P cs") auto
    have "\<not> list_ex P p" using Cons.IH [of p] by (simp add: sp)
    then show ?thesis using Cons False by (auto simp: sp)
  qed
qed

lemma split_on_append:
  "\<not> list_ex P l \<Longrightarrow> P c \<Longrightarrow> split_on P (l @ c # rest) = l # split_on P rest"
  by (induction l) auto

lemma file_lines_write_lines:
  "list_all (\<lambda>l. \<not> list_ex is_newline l) out \<Longrightarrow> file_lines (write_lines out) = out @ [[]]"
proof (induction out)
  case Nil
  then show ?case by (simp add: file_lines_def write_lines_def)
next
  case (Cons l out)
  have a: "\<not> list_ex is_newline l" using Cons.prems by simp
  have b: "is_newline (CHR 0x0A)" by (simp add: is_newline_def)
  have "split_on is_newline (l @ CHR 0x0A # write_lines out) = l # split_on is_newline (write_lines out)"
    using a b by (rule split_on_append)
  then show ?case using Cons by (simp add: file_lines_def write_lines_def)
qed

lemma strip_Nil: "strip [] = []"
  by (simp add: strip_eval)

lemma kept_lines_write_lines:
  assumes "list_all single_line out"
  shows "kept_lines (write_lines out) = out"
proof -
  have nl: "list_all (\<lambda>l. \<not> list_ex is_newline l) out"
    using assms by (induction out) (simp_all add: single_line_def)
  have "map strip out = out"
    using assms by (induction out) (simp_all add: single_line_def)
  moreover have "filter (\<lambda>l. l \<noteq> []) out = out"
    using assms by (induction out) (simp_all add: single_line_def)
  ultimately show ?thesis
    by (simp add: kept_lines_def file_lines_write_lines [OF nl] strip_Nil)
qed

lemma kept_lines_single:
  "l \<in> set (kept_lines content) \<Longrightarrow> single_line l"
proof -
  assume "l \<in> set (kept_lines content)"
  then obtain raw where raw: "raw \<in> set (file_lines content)" and l: "l = strip raw" and ne: "l \<noteq> []"
    by (auto simp: kept_lines_def)
  have "\<not> list_ex is_newline raw"
    using raw unfolding file_lines_def by (rule split_on_pieces)
  then have "\<not> list_ex is_newline l"
    using set_strip [of raw] by (auto simp: l list_ex_iff)
  then show ?thesis using ne by (simp add: single_line_def l strip_idem)
qed

subsection \<open>Passes that raise, and passes applied twice\<close>

lemma update_lines_raises:
  "\<not> lines_well_typed loads (filter (\<lambda>l. l \<noteq> []) (map strip raws)) \<Longrightarrow>
     \<exists>e. update_lines loads dumps m raws = Inl e"
proof (induction raws)
  case Nil
  then show ?case by (simp add: lines_well_typed_def)
next
  case (Cons raw raws)
  show ?case
  proof (cases "strip raw = []")
    case True
    then show ?thesis using Cons by simp
  next
    case False
    show ?thesis
    proof (cases "loads (strip raw)")
      case None
      then have "\<not> lines_well_typed loads (filter (\<lambda>l. l \<noteq> []) (map strip raws))"
        using Cons.prems False by (simp add: lines_well_typed_def)
      then obtain e where "update_lines loads dumps m raws = Inl e"
        using Cons.IH by blast
      then show ?thesis using False None by simp
    next
      case (Some data)
      show ?thesis
      proof (cases "well_typed_entry data")
        case True
        then have "\<not> lines_well_typed loads (filter (\<lambda>l. l \<noteq> []) (map strip raws))"
          using Cons.prems False Some by (simp add: lines_well_typed_def)
        then obtain e where "update_lines loads dumps m raws = Inl e"
          using Cons.IH by blast
        then show ?thesis
          using False Some update_entry_closed [OF True, of m] by simp
      next
        case False
        then obtain e where "update_entry m data = Inl e"
          using update_entry_raises by blast
        then show ?thesis using \<open>strip raw \<noteq> []\<close> Some by simp
      qed
    qed
  qed
qed

lemma map_of_dict_set: "map_of (dict_set d k v) k = Some v"
  by (induction d k v rule: dict_set.induct) auto

lemma dict_set_dict_set: "dict_set (dict_set d k a) k b = dict_set d k b"
  by (induction d k a rule: dict_set.induct) auto

lemma replace_path_stable:
  assumes "stable_mapping m"
  shows "replace_path m (replace_path m v) = replace_path m v"
proof (cases v)
  case (JStr p)
  show ?thesis
  proof (cases "map_of m (basename p)")
    case None
    then show ?thesis by (simp add: JStr replace_path_def)
  next
    case (Some u)
    then have "(basename p, u) \<in> set m" by (rule map_of_SomeD)
    then have "case map_of m (basename u) of None \<Rightarrow> True | Some u' \<Rightarrow> u' = u"
      using assms unfolding stable_mapping_def list_all_iff
      by (drule_tac x = "(basename p, u)" in bspec) (simp_all split: option.splits)
    then show ?thesis using Some by (simp add: JStr replace_path_def split: option.splits)
  qed
qed (simp_all add: replace_path_def)

lemma replace_entry_stable:
  assumes "stable_mapping m"
  shows "replace_entry m (replace_entry m data) = replace_entry m data"
proof (cases data)
  case (JObj d)
  show ?thesis
  proof (cases "map_of d ''videos''")
    case None
    then show ?thesis by (simp add: JObj replace_entry_def)
  next
    case (Some vs)
    show ?thesis
    proof (cases vs)
      case (JObj videos)
      then show ?thesis
        using Some replace_path_stable [OF assms]
        by (simp add: \<open>data = JObj d\<close> replace_entry_def map_of_dict_set dict_set_dict_set comp_def)
    qed (use Some in \<open>simp_all add: \<open>data = JObj d\<close> replace_entry_def\<close>)
  qed
qed (simp_all add: replace_entry_def)

lemma is_JStr_replace_path: "is_JStr (replace_path m v) = is_JStr v"
  by (cases v) (simp_all add: is_JStr_def replace_path_def split: option.splits)

lemma well_typed_replace_entry:
  "well_typed_entry data \<Longrightarrow> well_typed_entry (replace_entry m data)"
proof (cases data)
  case (JObj d)
  assume w: "well_typed_entry data"
  show ?thesis
  proof (cases "map_of d ''videos''")
    case None
    then show ?thesis using w by (simp add: JObj replace_entry_def)
  next
    case (Some vs)
    show ?thesis
    proof (cases vs)
      case (JObj videos)
      then show ?thesis
        using Some w
        by (simp add: \<open>data = JObj d\<close> replace_entry_def well_typed_entry_def map_of_dict_set
            list_all_iff is_JStr_replace_path)
    qed (use Some w in \<open>simp_all add: \<open>data = JObj d\<close> replace_entry_def\<close>)
  qed
qed (simp_all add: replace_entry_def)


lemma update_jsonl_file_missing:
  "files p = None \<Longrightarrow> update_jsonl_file loads dumps files p m = (files, Inr 0)"
  by (simp add: update_jsonl_file_def)

lemma update_jsonl_file_closed:
  assumes "files p = Some content" and "lines_well_typed loads (kept_lines content)"
  shows "update_jsonl_file loads dumps files p m =
           (files(p \<mapsto> write_lines (map (out_line loads dumps m) (kept_lines content))),
            Inr (length (filter (line_changed loads m) (kept_lines content))))"
  using assms update_lines_closed [of loads "file_lines content" dumps m]
  by (simp add: update_jsonl_file_def kept_lines_def)

lemma update_jsonl_file_raises:
  assumes "files p = Some content" and "\<not> lines_well_typed loads (kept_lines content)"
  shows "\<exists>e. update_jsonl_file loads dumps files p m = (files, Inl e)"
proof -
  obtain e where "update_lines loads dumps m (file_lines content) = Inl e"
    using assms(2) update_lines_raises [of loads "file_lines content" dumps m]
    by (auto simp: kept_lines_def)
  then show ?thesis using assms(1) by (simp add: update_jsonl_file_def)
qed

lemma second_pass_lines:
  assumes st: "stable_mapping m"
    and rb: "reads_back loads dumps m K"
    and wt: "lines_well_typed loads K"
    and sl: "list_all single_line K"
  shows "list_all single_line (map (out_line loads dumps m) K) \<and>
         lines_well_typed loads (map (out_line loads dumps m) K) \<and>
         map (out_line loads dumps m) (map (out_line loads dumps m) K) = map (out_line loads dumps m) K"
  using rb wt sl
proof (induction K)
  case Nil
  then show ?case by (simp add: lines_well_typed_def)
next
  case (Cons l K)
  have rest: "list_all single_line (map (out_line loads dumps m) K) \<and>
         lines_well_typed loads (map (out_line loads dumps m) K) \<and>
         map (out_line loads dumps m) (map (out_line loads dumps m) K) = map (out_line loads dumps m) K"
    using Cons by (simp add: reads_back_def lines_well_typed_def)
  have here: "single_line (out_line loads dumps m l) \<and>
        (case loads (out_line loads dumps m l) of None \<Rightarrow> True | Some data \<Rightarrow> well_typed_entry data) \<and>
        out_line loads dumps m (out_line loads dumps m l) = out_line loads dumps m l"
  proof (cases "loads l")
    case None
    then show ?thesis using Cons.prems by (simp add: out_line_def)
  next
    case (Some data)
    have "well_typed_entry data" using Cons.prems Some by (simp add: lines_well_typed_def)
    then have "well_typed_entry (replace_entry m data)" by (rule well_typed_replace_entry)
    then show ?thesis
      using Cons.prems Some replace_entry_stable [OF st, of data]
      by (simp add: out_line_def reads_back_def)
  qed
  show ?case using rest here by (simp add: lines_well_typed_def)
qed

text \<open>
  What a pass that raises nothing writes: one output line for every line that is
  not blank, in the original order, a line that fails to parse as JSON being
  written as it is after the whitespace around it was stripped.  The count that is
  returned is the number of parsed lines in which at least one path of the
  \<open>videos\<close> field was replaced, so it excludes the lines that fail to parse.
\<close>

lemma update_jsonl_file_lines:
  assumes "files jsonl_file = Some content"
    and "lines_well_typed loads (kept_lines content)"
  shows "update_jsonl_file loads dumps files jsonl_file url_mapping =
           (files(jsonl_file \<mapsto>
              write_lines (map (out_line loads dumps url_mapping) (kept_lines content))),
            Inr (length (filter (line_changed loads url_mapping) (kept_lines content)))) \<and>
         (\<forall>l. loads l = None \<longrightarrow>
              out_line loads dumps url_mapping l = l \<and> \<not> line_changed loads url_mapping l)"
  using assms update_jsonl_file_closed [where files = files and p = jsonl_file and content = content
      and loads = loads and dumps = dumps and m = url_mapping]
  by (simp add: out_line_def line_changed_def)

text \<open>
  C2, amended.  Applying \<open>update_jsonl_file\<close> twice with the same mapping leaves
  the same file content as applying it once, provided the mapping is stable (the
  file name of every URL in it is not a key of the mapping, or is the key of that
  same URL) and the entries that the pass writes are read back as written.
\<close>

theorem update_jsonl_file_idempotent:
  assumes st: "stable_mapping url_mapping"
    and rb: "case files jsonl_file of
               None \<Rightarrow> True
             | Some content \<Rightarrow> reads_back loads dumps url_mapping (kept_lines content)"
  shows "fst (update_jsonl_file loads dumps
                (fst (update_jsonl_file loads dumps files jsonl_file url_mapping))
                jsonl_file url_mapping)
         = fst (update_jsonl_file loads dumps files jsonl_file url_mapping)"
proof (cases "files jsonl_file")
  case None
  then show ?thesis by (simp add: update_jsonl_file_missing)
next
  case (Some content)
  show ?thesis
  proof (cases "lines_well_typed loads (kept_lines content)")
    case False
    then obtain e where "update_jsonl_file loads dumps files jsonl_file url_mapping = (files, Inl e)"
      using Some update_jsonl_file_raises [where files = files and p = jsonl_file and content = content
          and loads = loads and dumps = dumps and m = url_mapping] by blast
    then show ?thesis by simp
  next
    case True
    let ?K = "kept_lines content"
    let ?out = "map (out_line loads dumps url_mapping) ?K"
    let ?files1 = "files(jsonl_file \<mapsto> write_lines ?out)"
    have first: "update_jsonl_file loads dumps files jsonl_file url_mapping =
        (?files1, Inr (length (filter (line_changed loads url_mapping) ?K)))"
      using Some True update_jsonl_file_closed [where files = files and p = jsonl_file
          and content = content and loads = loads and dumps = dumps and m = url_mapping] by blast
    have sl: "list_all single_line ?K"
      using kept_lines_single by (auto simp: list_all_iff)
    have rb': "reads_back loads dumps url_mapping ?K" using rb Some by simp
    note sp = second_pass_lines [OF st rb' True sl]
    have kept: "kept_lines (write_lines ?out) = ?out"
      using sp by (intro kept_lines_write_lines) simp
    have f1: "?files1 jsonl_file = Some (write_lines ?out)" by simp
    have wt1: "lines_well_typed loads (kept_lines (write_lines ?out))"
      using sp by (simp add: kept)
    have "update_jsonl_file loads dumps ?files1 jsonl_file url_mapping =
        (?files1(jsonl_file \<mapsto> write_lines (map (out_line loads dumps url_mapping)
            (kept_lines (write_lines ?out)))),
         Inr (length (filter (line_changed loads url_mapping) (kept_lines (write_lines ?out)))))"
      using f1 wt1 update_jsonl_file_closed [where files = "?files1" and p = jsonl_file
          and content = "write_lines ?out" and loads = loads and dumps = dumps and m = url_mapping]
      by blast
    then have "fst (update_jsonl_file loads dumps ?files1 jsonl_file url_mapping) =
        ?files1(jsonl_file \<mapsto> write_lines (map (out_line loads dumps url_mapping) ?out))"
      by (simp only: kept fst_conv)
    also have "\<dots> = ?files1"
      using sp by (simp only: fun_upd_upd)
    finally show ?thesis by (simp only: first fst_conv)
  qed
qed


lemmas sample_defs = sample_loads_def sample_dumps_def sample_line_def sample_entry_def
  signed_mapping_def chain_mapping_def sample_manifest_def padded_manifest_def demo_path_def sample_files_def

lemmas run_defs = update_jsonl_file_def file_lines_def is_newline_def write_lines_def
  strip_eval update_entry_def basename_def Let_def

lemma kept_sample: "kept_lines sample_manifest = [sample_line ''videos/a.mp4'']"
  by (simp add: kept_lines_def sample_manifest_def sample_line_def file_lines_def is_newline_def
      strip_eval)

lemma kept_padded: "kept_lines padded_manifest = [''{bad'', sample_line ''videos/a.mp4'']"
  by (simp add: kept_lines_def padded_manifest_def sample_line_def file_lines_def is_newline_def
      strip_eval)

text \<open>
  C8.  The pass strips every line before it parses it, and writes the stripped
  line back when the line fails to parse, where the comment at that statement has
  the original line kept.  On a manifest whose first line is \<open>{bad\<close> with two
  spaces before it and one after it, a line that is not JSON, the file that is
  written holds \<open>{bad\<close> without the spaces, and the original line no more.  The
  line is not dropped, and the count, 1, excludes it.
\<close>

theorem update_jsonl_file_strips_malformed_line:
  "sample_loads ''  {bad '' = None \<and>
   ''  {bad '' \<in> set (file_lines padded_manifest) \<and>
   update_jsonl_file sample_loads sample_dumps [demo_path \<mapsto> padded_manifest] demo_path signed_mapping
     = ([demo_path \<mapsto> ''{bad'' @ [CHR 0x0A] @ sample_line ''https://h/a.mp4?sign=k'' @ [CHR 0x0A]], Inr 1) \<and>
   ''  {bad '' \<notin> set (file_lines (''{bad'' @ [CHR 0x0A] @ sample_line ''https://h/a.mp4?sign=k'' @ [CHR 0x0A]))"
  by (simp add: sample_defs run_defs)

text \<open>
  C2, as claimed, fails: with a mapping that sends \<open>a.mp4\<close> to a URL whose file
  name is \<open>b.mp4\<close>, and \<open>b.mp4\<close> to another URL, the second pass replaces what
  the first pass wrote.
\<close>

theorem update_jsonl_file_idempotent_counterexample:
  "fst (update_jsonl_file sample_loads sample_dumps
          (fst (update_jsonl_file sample_loads sample_dumps sample_files demo_path chain_mapping))
          demo_path chain_mapping) demo_path
     = Some (sample_line ''https://h/c.mp4'' @ [CHR 0x0A]) \<and>
   fst (update_jsonl_file sample_loads sample_dumps sample_files demo_path chain_mapping) demo_path
     = Some (sample_line ''https://h/b.mp4'' @ [CHR 0x0A]) \<and>
   sample_line ''https://h/c.mp4'' @ [CHR 0x0A] \<noteq> sample_line ''https://h/b.mp4'' @ [CHR 0x0A]"
  by (simp add: sample_defs run_defs)

text \<open>The amended C2 on the sample manifest and a mapping to a signed URL.\<close>

theorem update_jsonl_file_idempotent_witness:
  "stable_mapping signed_mapping \<and>
   sample_files demo_path = Some sample_manifest \<and>
   reads_back sample_loads sample_dumps signed_mapping (kept_lines sample_manifest) \<and>
   fst (update_jsonl_file sample_loads sample_dumps
          (fst (update_jsonl_file sample_loads sample_dumps sample_files demo_path signed_mapping))
          demo_path signed_mapping)
     = fst (update_jsonl_file sample_loads sample_dumps sample_files demo_path signed_mapping) \<and>
   fst (update_jsonl_file sample_loads sample_dumps sample_files demo_path signed_mapping) demo_path
     = Some (sample_line ''https://h/a.mp4?sign=k'' @ [CHR 0x0A])"
proof -
  have st: "stable_mapping signed_mapping"
    by (simp add: stable_mapping_def signed_mapping_def basename_def)
  have f: "sample_files demo_path = Some sample_manifest"
    by (simp add: sample_files_def)
  have rb: "reads_back sample_loads sample_dumps signed_mapping (kept_lines sample_manifest)"
    by (simp add: kept_sample reads_back_def replace_entry_def replace_path_def basename_def
        single_line_def strip_eval is_newline_def
        sample_loads_def sample_dumps_def sample_line_def sample_entry_def signed_mapping_def)
  have rb': "case sample_files demo_path of None \<Rightarrow> True
     | Some content \<Rightarrow> reads_back sample_loads sample_dumps signed_mapping (kept_lines content)"
    using rb by (simp add: f)
  have v: "fst (update_jsonl_file sample_loads sample_dumps sample_files demo_path signed_mapping) demo_path
     = Some (sample_line ''https://h/a.mp4?sign=k'' @ [CHR 0x0A])"
    by (simp add: sample_defs run_defs)
  show ?thesis
    using update_jsonl_file_idempotent [where files = sample_files and jsonl_file = demo_path
        and loads = sample_loads and dumps = sample_dumps and url_mapping = signed_mapping, OF st rb']
      st f rb v by simp
qed

section \<open>Backups\<close>

text \<open>
  The Resolver's loop copies the manifest to the manifest's path extended by
  \<open>.backup\<close> before it rewrites it.
\<close>

lemma resolver_update_loop_backup:
  "resolver_update_loop sample_loads sample_dumps signed_mapping JSONL_FILES sample_files
     = ([demo_path \<mapsto> sample_line ''https://h/a.mp4?sign=k'' @ [CHR 0x0A],
         demo_path @ ''.backup'' \<mapsto> sample_manifest], None)"
  by (simp add: JSONL_FILES_def create_backup_def
      sample_loads_def sample_dumps_def sample_line_def sample_entry_def
      signed_mapping_def sample_manifest_def demo_path_def sample_files_def
      update_jsonl_file_def file_lines_def is_newline_def write_lines_def
      strip_eval update_entry_def basename_def Let_def fun_upd_twist)

text \<open>
  C1.  The Refresher calls \<open>create_backup\<close> on the manifest's path extended by
  \<open>.signed\<close>, a file that does not exist, so nothing is copied: on a file system
  that holds one manifest, the manifest is rewritten and no file holds the content
  it had before.
\<close>

theorem refresher_backup_missing:
  "sample_files demo_path = Some sample_manifest \<and>
   update_jsonl_files_with_signed_urls sample_loads sample_dumps sample_files signed_mapping
     = ([demo_path \<mapsto> sample_line ''https://h/a.mp4?sign=k'' @ [CHR 0x0A]], None) \<and>
   sample_manifest \<noteq> sample_line ''https://h/a.mp4?sign=k'' @ [CHR 0x0A]"
  by (simp add: update_jsonl_files_with_signed_urls_def JSONL_FILES_def create_backup_def
      sample_loads_def sample_dumps_def sample_line_def sample_entry_def
      signed_mapping_def sample_manifest_def demo_path_def sample_files_def
      update_jsonl_file_def file_lines_def is_newline_def write_lines_def
      strip_eval update_entry_def basename_def Let_def)

section \<open>Properties of the caption lookup\<close>








section \<open>Runs with a missing input\<close>

text \<open>An upload log that is present is parsed line by line.\<close>

lemma parse_upload_log_sample:
  "parse_upload_log
     [UPLOAD_LOG_FILE \<mapsto>
        ''Upload /local/a.mp4   =>   cos://bucket/hunyuanvideo-foley_demo/x/a.mp4'' @ [CHR 0x0A]]
     UPLOAD_LOG_FILE
   = ([(''a.mp4'', ''hunyuanvideo-foley_demo/x/a.mp4'')], [])"
  by (simp add: parse_upload_log_def file_lines_def is_newline_def upload_pattern_def
      startswith_def run_offsets.simps candidates_def space_class_def any_class_def
      not_slash_class_def ws_len_def whitespace_def cp_len_def is_continuation_def basename_def)

text \<open>
  C3, amended.  When the upload log is absent, the Resolver reports it and returns
  early; when the saved URL mapping is absent, or the signing tool is not
  installed, the Refresher reports it and returns early; in each case the file
  system is left as it was and nothing is raised.
\<close>

theorem missing_input_early_return:
  "(files UPLOAD_LOG_FILE = None \<longrightarrow>
      replace_video_urls_main tool loads dumps dump_mapping files
        = (files, [Error_log_file_missing, Error_no_file_mapping], Returned_early)) \<and>
   (files URL_MAPPING_FILE = None \<longrightarrow>
      generate_signed_urls_main Check_passed tool stderr_decodable loads dumps dump_mapping files
        = (files, [Error_mapping_file_missing, Error_no_cos_paths], Returned_early)) \<and>
   generate_signed_urls_main Check_failed tool stderr_decodable loads dumps dump_mapping files
     = (files, [Error_tool_not_installed], Returned_early)"
  by (simp add: replace_video_urls_main_def parse_upload_log_def
      generate_signed_urls_main_def extract_cos_paths_from_mapping_def)

text \<open>
  C3, as claimed, fails: when the benchmark CSV file is absent, the Manifest
  Builder does not return early; \<open>open\<close> raises \<open>FileNotFoundError\<close>, which nothing
  catches.
\<close>

theorem missing_csv_counterexample:
  "Map.empty ''public/test_aries_tv2a_sound.csv'' = (None :: string option) \<and>
   generate_model_comparison_jsonl (\<lambda>content. Inr []) sample_int sample_isdigit sample_lower
       sample_dumps None (Some []) Map.empty
     = (Map.empty, [], Inl FileNotFoundError)"
  by (simp add: generate_model_comparison_jsonl_def read_csv_data_def)

text \<open>The amended C3 on an empty file system.\<close>

theorem missing_input_early_return_witness:
  "Map.empty UPLOAD_LOG_FILE = (None :: string option) \<and>
   replace_video_urls_main sample_tool sample_loads sample_dumps (\<lambda>m. []) Map.empty
     = (Map.empty, [Error_log_file_missing, Error_no_file_mapping], Returned_early) \<and>
   Map.empty URL_MAPPING_FILE = (None :: string option) \<and>
   generate_signed_urls_main Check_passed sample_tool (\<lambda>p. True) sample_loads sample_dumps
       (\<lambda>m. []) Map.empty
     = (Map.empty, [Error_mapping_file_missing, Error_no_cos_paths], Returned_early) \<and>
   generate_signed_urls_main Check_failed sample_tool (\<lambda>p. True) sample_loads sample_dumps
       (\<lambda>m. []) Map.empty
     = (Map.empty, [Error_tool_not_installed], Returned_early)"
  using missing_input_early_return [of Map.empty sample_tool sample_loads sample_dumps "\<lambda>m. []"
      "\<lambda>p. True"]
  by simp

section \<open>Properties of the Refresher's path extraction\<close>

lemma after_first_split: "after_first sub s = Some rest \<Longrightarrow> \<exists>pre. s = pre @ sub @ rest"
proof (induction s)
  case Nil
  then show ?case by (simp split: if_splits)
next
  case (Cons c cs)
  show ?case
  proof (cases "startswith (c # cs) sub")
    case True
    then have "rest = drop (length sub) (c # cs)" using Cons.prems by simp
    moreover have "take (length sub) (c # cs) = sub" using True by (simp add: startswith_def)
    ultimately have "c # cs = [] @ sub @ rest"
      by (metis append_Nil append_take_drop_id)
    then show ?thesis by blast
  next
    case False
    then have "after_first sub cs = Some rest" using Cons.prems by simp
    then obtain pre where "cs = pre @ sub @ rest" using Cons.IH by blast
    then have "c # cs = (c # pre) @ sub @ rest" by simp
    then show ?thesis by blast
  qed
qed

lemma map_of_dict_set_other: "k' \<noteq> k \<Longrightarrow> map_of (dict_set d k v) k' = map_of d k'"
  by (induction d k v rule: dict_set.induct) auto

lemma public_url_roundtrip:
  "after_first marker (build_cos_public_url (''hunyuanvideo-foley_demo/'' @ rest) default_bucket) = Some rest"
  by (simp add: build_cos_public_url_def default_bucket_def marker_def startswith_def)

lemma extract_cos_paths_loop_closed:
  assumes "distinct (map fst m)"
  shows "\<exists>cos_paths. extract_cos_paths_loop (map (\<lambda>fu. (fst fu, JStr (snd fu))) m) acc = Inr cos_paths \<and>
           (\<forall>f. map_of cos_paths f =
              (case map_of m f of
                 None \<Rightarrow> map_of acc f
               | Some url \<Rightarrow>
                   (case after_first marker url of
                      Some rest \<Rightarrow> Some (''hunyuanvideo-foley_demo/'' @ rest)
                    | None \<Rightarrow> map_of acc f)))"
  using assms
proof (induction m arbitrary: acc)
  case Nil
  then show ?case by simp
next
  case (Cons a m)
  obtain f0 u0 where a: "a = (f0, u0)" by (cases a)
  have d: "distinct (map fst m)" and n: "f0 \<notin> fst ` set m"
    using Cons.prems by (simp_all add: a)
  have none: "map_of m f0 = None" using n by (simp add: map_of_eq_None_iff)
  show ?case
  proof (cases "after_first marker u0")
    case None
    obtain cp where cp: "extract_cos_paths_loop (map (\<lambda>fu. (fst fu, JStr (snd fu))) m) acc = Inr cp"
      and look: "\<forall>f. map_of cp f =
              (case map_of m f of
                 None \<Rightarrow> map_of acc f
               | Some url \<Rightarrow>
                   (case after_first marker url of
                      Some rest \<Rightarrow> Some (''hunyuanvideo-foley_demo/'' @ rest)
                    | None \<Rightarrow> map_of acc f))"
      using Cons.IH [OF d, of acc] by blast
    have "extract_cos_paths_loop (map (\<lambda>fu. (fst fu, JStr (snd fu))) (a # m)) acc = Inr cp"
      using cp None by (simp add: a)
    moreover have "\<forall>f. map_of cp f =
              (case map_of (a # m) f of
                 None \<Rightarrow> map_of acc f
               | Some url \<Rightarrow>
                   (case after_first marker url of
                      Some rest \<Rightarrow> Some (''hunyuanvideo-foley_demo/'' @ rest)
                    | None \<Rightarrow> map_of acc f))"
      using look None none by (simp add: a)
    ultimately show ?thesis by blast
  next
    case (Some rest0)
    let ?acc = "dict_set acc f0 (''hunyuanvideo-foley_demo/'' @ rest0)"
    obtain cp where cp: "extract_cos_paths_loop (map (\<lambda>fu. (fst fu, JStr (snd fu))) m) ?acc = Inr cp"
      and look: "\<forall>f. map_of cp f =
              (case map_of m f of
                 None \<Rightarrow> map_of ?acc f
               | Some url \<Rightarrow>
                   (case after_first marker url of
                      Some rest \<Rightarrow> Some (''hunyuanvideo-foley_demo/'' @ rest)
                    | None \<Rightarrow> map_of ?acc f))"
      using Cons.IH [OF d, of ?acc] by blast
    have "extract_cos_paths_loop (map (\<lambda>fu. (fst fu, JStr (snd fu))) (a # m)) acc = Inr cp"
      using cp Some by (simp add: a)
    moreover have "map_of cp f =
              (case map_of (a # m) f of
                 None \<Rightarrow> map_of acc f
               | Some url \<Rightarrow>
                   (case after_first marker url of
                      Some rest \<Rightarrow> Some (''hunyuanvideo-foley_demo/'' @ rest)
                    | None \<Rightarrow> map_of acc f))" for f
    proof (cases "f = f0")
      case True
      then show ?thesis using look Some none by (simp add: a map_of_dict_set)
    next
      case False
      then have eq: "map_of ?acc f = map_of acc f" by (rule map_of_dict_set_other)
      have l: "map_of cp f =
              (case map_of m f of
                 None \<Rightarrow> map_of ?acc f
               | Some url \<Rightarrow>
                   (case after_first marker url of
                      Some rest \<Rightarrow> Some (''hunyuanvideo-foley_demo/'' @ rest)
                    | None \<Rightarrow> map_of ?acc f))"
        using look by blast
      have "map_of cp f =
              (case map_of m f of
                 None \<Rightarrow> map_of acc f
               | Some url \<Rightarrow>
                   (case after_first marker url of
                      Some rest \<Rightarrow> Some (''hunyuanvideo-foley_demo/'' @ rest)
                    | None \<Rightarrow> map_of acc f))"
        using l unfolding eq by assumption
      then show ?thesis using False by (simp add: a)
    qed
    ultimately show ?thesis by blast
  qed
qed

text \<open>
  C9.  For a saved mapping from names to URLs, \<open>extract_cos_paths_from_mapping\<close>
  returns a dictionary that holds, for every name whose URL contains the marker
  \<open>/hunyuanvideo-foley_demo/\<close>, the directory name \<open>hunyuanvideo-foley_demo/\<close>
  followed by everything after the first occurrence of the marker, and that holds
  nothing for a name whose URL lacks the marker.  Extraction from the public URL
  built from a path under that directory gives the path back.
\<close>

theorem extract_cos_paths_from_mapping_paths:
  assumes "files URL_MAPPING_FILE = Some content"
    and "loads content = Some (JObj (map (\<lambda>fu. (fst fu, JStr (snd fu))) url_mapping))"
    and "distinct (map fst url_mapping)"
  shows "\<exists>cos_paths.
           extract_cos_paths_from_mapping loads files = (Inr cos_paths, []) \<and>
           (\<forall>f. map_of cos_paths f =
              (case map_of url_mapping f of
                 None \<Rightarrow> None
               | Some url \<Rightarrow>
                   (case after_first marker url of
                      Some rest \<Rightarrow> Some (''hunyuanvideo-foley_demo/'' @ rest)
                    | None \<Rightarrow> None))) \<and>
           extract_cos_path
             (JStr (build_cos_public_url (''hunyuanvideo-foley_demo/'' @ path) default_bucket))
             = Inr (Some (''hunyuanvideo-foley_demo/'' @ path))"
proof -
  obtain cos_paths where
    l: "extract_cos_paths_loop (map (\<lambda>fu. (fst fu, JStr (snd fu))) url_mapping) [] = Inr cos_paths"
    and m: "\<forall>f. map_of cos_paths f =
              (case map_of url_mapping f of
                 None \<Rightarrow> map_of [] f
               | Some url \<Rightarrow>
                   (case after_first marker url of
                      Some rest \<Rightarrow> Some (''hunyuanvideo-foley_demo/'' @ rest)
                    | None \<Rightarrow> map_of [] f))"
    using extract_cos_paths_loop_closed [OF assms(3), of "[]"] by blast
  have r: "extract_cos_paths_from_mapping loads files = (Inr cos_paths, [])"
    using assms(1,2) l by (simp add: extract_cos_paths_from_mapping_def)
  have rt: "extract_cos_path
             (JStr (build_cos_public_url (''hunyuanvideo-foley_demo/'' @ path) default_bucket))
             = Inr (Some (''hunyuanvideo-foley_demo/'' @ path))"
    by (simp only: extract_cos_path.simps public_url_roundtrip option.case)
  have m': "\<forall>f. map_of cos_paths f =
              (case map_of url_mapping f of
                 None \<Rightarrow> None
               | Some url \<Rightarrow>
                   (case after_first marker url of
                      Some rest \<Rightarrow> Some (''hunyuanvideo-foley_demo/'' @ rest)
                    | None \<Rightarrow> None))"
    using m unfolding map_of.simps by assumption
  show ?thesis using r rt m' by blast
qed

text \<open>C9 on the sample mapping file.\<close>

theorem extract_cos_paths_from_mapping_paths_witness:
  "[URL_MAPPING_FILE \<mapsto> saved_mapping_text] URL_MAPPING_FILE = Some saved_mapping_text \<and>
   saved_mapping_loads saved_mapping_text
     = Some (JObj (map (\<lambda>fu. (fst fu, JStr (snd fu))) saved_mapping)) \<and>
   distinct (map fst saved_mapping) \<and>
   (\<exists>cos_paths.
      extract_cos_paths_from_mapping saved_mapping_loads [URL_MAPPING_FILE \<mapsto> saved_mapping_text]
        = (Inr cos_paths, []) \<and>
      map_of cos_paths ''a.mp4'' = Some ''hunyuanvideo-foley_demo/x/a.mp4'' \<and>
      map_of cos_paths ''b.mp4'' = None)"
proof -
  have f: "[URL_MAPPING_FILE \<mapsto> saved_mapping_text] URL_MAPPING_FILE = Some saved_mapping_text"
    by simp
  have l: "saved_mapping_loads saved_mapping_text
     = Some (JObj (map (\<lambda>fu. (fst fu, JStr (snd fu))) saved_mapping))"
    by (simp add: saved_mapping_loads_def)
  have d: "distinct (map fst saved_mapping)"
    by (simp add: saved_mapping_def)
  have a: "(case map_of saved_mapping ''a.mp4'' of
                 None \<Rightarrow> None
               | Some url \<Rightarrow>
                   (case after_first marker url of
                      Some rest \<Rightarrow> Some (''hunyuanvideo-foley_demo/'' @ rest)
                    | None \<Rightarrow> None)) = Some ''hunyuanvideo-foley_demo/x/a.mp4''"
    by (simp add: saved_mapping_def marker_def startswith_def)
  have b: "(case map_of saved_mapping ''b.mp4'' of
                 None \<Rightarrow> None
               | Some url \<Rightarrow>
                   (case after_first marker url of
                      Some rest \<Rightarrow> Some (''hunyuanvideo-foley_demo/'' @ rest)
                    | None \<Rightarrow> None)) = None"
    by (simp add: saved_mapping_def marker_def startswith_def)
  obtain cos_paths where
    r: "extract_cos_paths_from_mapping saved_mapping_loads [URL_MAPPING_FILE \<mapsto> saved_mapping_text]
        = (Inr cos_paths, [])"
    and m: "\<forall>f. map_of cos_paths f =
              (case map_of saved_mapping f of
                 None \<Rightarrow> None
               | Some url \<Rightarrow>
                   (case after_first marker url of
                      Some rest \<Rightarrow> Some (''hunyuanvideo-foley_demo/'' @ rest)
                    | None \<Rightarrow> None))"
    using extract_cos_paths_from_mapping_paths [where files = "[URL_MAPPING_FILE \<mapsto> saved_mapping_text]"
        and content = saved_mapping_text and loads = saved_mapping_loads
        and url_mapping = saved_mapping, OF f l d]
    by blast
  have "map_of cos_paths ''a.mp4'' = Some ''hunyuanvideo-foley_demo/x/a.mp4''"
    using m a by (simp only:)
  moreover have "map_of cos_paths ''b.mp4'' = None"
    using m b by (simp only:)
  ultimately show ?thesis using f l d r by blast
qed

section \<open>Properties of the file name policy\<close>

lemma py_replace_mem:
  "c \<notin> set old \<Longrightarrow> c \<in> set (py_replace old [] s) \<longleftrightarrow> c \<in> set s"
proof (induction old "[] :: string" s rule: py_replace.induct)
  case (1 old)
  then show ?case by simp
next
  case (2 old c' cs)
  show ?case
  proof (cases "old \<noteq> [] \<and> startswith (c' # cs) old")
    case True
    then have t: "take (length old) (c' # cs) = old" by (simp add: startswith_def)
    have "set (c' # cs) = set (take (length old) (c' # cs)) \<union> set (drop (length old) (c' # cs))"
      by (metis append_take_drop_id set_append)
    then have "c \<in> set (c' # cs) \<longleftrightarrow> c \<in> set (drop (length old) (c' # cs))"
      using 2(3) by (simp only: t) blast
    then show ?thesis using True 2(1) [OF True 2(3)] by simp
  next
    case False
    then show ?thesis using 2(2) [OF False 2(3)] by auto
  qed
qed

lemma length_split_on: "length (split_on P xs) = Suc (length (filter P xs))"
proof (induction xs)
  case Nil
  then show ?case by simp
next
  case (Cons c cs)
  then show ?case by (cases "split_on P cs") auto
qed

lemma underscore_tokens:
  assumes "CHR ''_'' \<in> set filename"
  shows "length (py_split (CHR ''_'') (py_replace ''.mp4'' [] filename)) \<ge> 2"
proof -
  have "CHR ''_'' \<in> set (py_replace ''.mp4'' [] filename)"
    using assms by (simp add: py_replace_mem)
  then have "filter (\<lambda>c. c = CHR ''_'') (py_replace ''.mp4'' [] filename) \<noteq> []"
    by (auto simp: filter_empty_conv)
  then have "length (filter (\<lambda>c. c = CHR ''_'') (py_replace ''.mp4'' [] filename)) \<ge> 1"
    by (simp add: Suc_le_eq)
  then show ?thesis by (simp add: py_split_def length_split_on)
qed

lemma no_underscore_tokens:
  assumes "CHR ''_'' \<notin> set filename"
  shows "length (py_split (CHR ''_'') (py_replace ''.mp4'' [] filename)) < 2"
proof -
  have "CHR ''_'' \<notin> set (py_replace ''.mp4'' [] filename)"
    using assms by (simp add: py_replace_mem)
  then have "filter (\<lambda>c. c = CHR ''_'') (py_replace ''.mp4'' [] filename) = []"
    by (auto simp: filter_empty_conv)
  then show ?thesis by (simp add: py_split_def length_split_on)
qed

lemma startswith_mem: "startswith s p \<Longrightarrow> c \<in> set p \<Longrightarrow> c \<in> set s"
  by (metis in_set_takeD startswith_def)

lemma parse_filename_cases:
  assumes "f \<noteq> []"
  shows "extract_loop isdigit (f # files) bound video_groups =
           (case parse_filename isdigit f of
              None \<Rightarrow> extract_loop isdigit files bound video_groups
            | Some (model_name, video_id) \<Rightarrow>
                extract_loop isdigit files (Some (model_name, video_id))
                  (group_add video_groups video_id model_name (''videos/demo_show/'' @ f)))"
proof (cases "isdigit (first_char f) \<and> CHR ''-'' \<in> set f")
  case True
  then show ?thesis using assms by (simp add: parse_filename_def)
next
  case nd: False
  show ?thesis
  proof (cases "CHR ''_'' \<in> set f")
    case False
    have o: "\<not> startswith f ''Ours__128d_200k__''"
      using False startswith_mem [of f "''Ours__128d_200k__''" "CHR ''_''"] by auto
    have v: "\<not> startswith f ''V_AURA_''"
      using False startswith_mem [of f "''V_AURA_''" "CHR ''_''"] by auto
    have "parse_filename isdigit f = None"
      using no_underscore_tokens [OF False] by (simp add: parse_filename_def Let_def nd o v)
    then show ?thesis
      by (simp add: assms nd False)
  next
    case True
    note tk = underscore_tokens [OF True]
    show ?thesis
    proof (cases "startswith f ''Ours__128d_200k__''")
      case o: True
      have "parse_filename isdigit f = Some (''HIFI-Foley'',
                 py_replace ''.mp4'' [] (py_replace ''Ours__128d_200k__'' [] f))"
        by (simp add: parse_filename_def Let_def nd o)
      then show ?thesis
        by (simp add: assms nd True o)
    next
      case o: False
      show ?thesis
      proof (cases "startswith f ''V_AURA_''")
        case v: True
        have "parse_filename isdigit f
            = Some (''V_AURA'', last (py_split (CHR ''_'') (py_replace ''.mp4'' [] f)))"
          by (simp add: parse_filename_def Let_def nd o v)
        then show ?thesis
          using tk by (simp add: assms nd True o v Let_def)
      next
        case v: False
        have "\<not> length (py_split (CHR ''_'') (py_replace ''.mp4'' [] f)) < 2"
          using tk by simp
        then have "parse_filename isdigit f
            = Some (hd (py_split (CHR ''_'') (py_replace ''.mp4'' [] f)),
                  last (py_split (CHR ''_'') (py_replace ''.mp4'' [] f)))"
          by (simp add: parse_filename_def Let_def nd o v)
        then show ?thesis
          using tk by (simp add: assms nd True o v Let_def)
      qed
    qed
  qed
qed

lemma extract_loop_closed:
  "list_all (\<lambda>f. f \<noteq> []) files \<Longrightarrow>
     extract_loop isdigit files bound video_groups
       = Inr (fold (add_file isdigit) files video_groups)"
proof (induction files arbitrary: bound video_groups)
  case Nil
  then show ?case by simp
next
  case (Cons f files)
  have ne: "f \<noteq> []" and rest: "list_all (\<lambda>f. f \<noteq> []) files"
    using Cons.prems by simp_all
  have "\<exists>b'. extract_loop isdigit (f # files) bound video_groups
          = extract_loop isdigit files b' (add_file isdigit f video_groups)"
  proof (cases "parse_filename isdigit f")
    case None
    then have "extract_loop isdigit (f # files) bound video_groups
          = extract_loop isdigit files bound (add_file isdigit f video_groups)"
      using parse_filename_cases [OF ne, of isdigit files bound video_groups]
      by (simp add: add_file_def)
    then show ?thesis by blast
  next
    case (Some mv)
    obtain model_name video_id where mv: "mv = (model_name, video_id)" by (cases mv)
    have "extract_loop isdigit (f # files) bound video_groups
          = extract_loop isdigit files (Some (model_name, video_id)) (add_file isdigit f video_groups)"
      using Some parse_filename_cases [OF ne, of isdigit files bound video_groups]
      by (simp add: add_file_def mv)
    then show ?thesis by blast
  qed
  then obtain b' where "extract_loop isdigit (f # files) bound video_groups
          = extract_loop isdigit files b' (add_file isdigit f video_groups)" by blast
  then show ?case using Cons.IH [OF rest, of b' "add_file isdigit f video_groups"] by simp
qed

lemma glob_mp4_nonempty: "list_all (\<lambda>f. f \<noteq> []) (glob_mp4 video_dir)"
  by (cases video_dir) (auto simp: glob_mp4_def list_all_iff endswith_def)

lemma py_replace_absent:
  "after_first old s = None \<Longrightarrow> py_replace old [] s = s"
proof (induction s)
  case Nil
  then show ?case by simp
next
  case (Cons c cs)
  then show ?case by (auto simp: startswith_def split: if_splits)
qed

text \<open>
  For a name in which \<open>.mp4\<close> occurs at the end only, removing every occurrence of
  \<open>.mp4\<close> is taking the extension off.
\<close>

lemma py_replace_extension:
  "after_first ''.mp4'' stem = None \<Longrightarrow> py_replace ''.mp4'' [] (stem @ ''.mp4'') = stem"
proof (induction stem)
  case Nil
  then show ?case by (simp add: startswith_def)
next
  case (Cons c cs)
  have n: "\<not> startswith (c # cs) ''.mp4''" and r: "after_first ''.mp4'' cs = None"
    using Cons.prems by (simp_all split: if_splits)
  have "\<not> startswith (c # cs @ ''.mp4'') ''.mp4''"
  proof (cases cs)
    case Nil
    then show ?thesis by (simp add: startswith_def)
  next
    case c1: (Cons x xs)
    show ?thesis
    proof (cases xs)
      case Nil
      then show ?thesis by (simp add: startswith_def c1)
    next
      case c2: (Cons y ys)
      show ?thesis
      proof (cases ys)
        case Nil
        then show ?thesis by (simp add: startswith_def c1 c2)
      next
        case (Cons z zs)
        then show ?thesis using n by (simp add: startswith_def c1 c2)
      qed
    qed
  qed
  then show ?case using Cons.IH [OF r] by simp
qed

text \<open>
  C5, amended.  For every directory, the grouping is the result of adding, for
  every \<open>*.mp4\<close> file name in turn, the pair the policy gives for that name alone:
  a name whose first character is a digit and that contains a hyphen contributes
  nothing; a name with the prefix of the proposed model has the fixed model label,
  and its id is the name with every occurrence of the prefix and of \<open>.mp4\<close>
  removed; a name with the prefix of the baseline model has that label, and its id
  is the last underscore-delimited token of the name with every occurrence of
  \<open>.mp4\<close> removed; every other name has the first such token as model and the
  last as id; and a name that has no underscore once \<open>.mp4\<close> is removed contributes
  nothing.  No name raises an exception, and no name is grouped under the model
  and id of the name before it.
\<close>

theorem extract_video_ids_and_models_policy:
  "extract_video_ids_and_models isdigit video_dir
     = Inr (fold (add_file isdigit) (glob_mp4 video_dir) [])"
  using extract_loop_closed [OF glob_mp4_nonempty]
  by (simp add: extract_video_ids_and_models_def)

lemma first_char_samples:
  "first_char ''Ours__128d_200k__12.mp4'' = ''O''" "first_char ''V_AURA_x_12.mp4'' = ''V''"
  "first_char ''MMAudio_abc_7.mp4'' = ''M''" "first_char ''1-1.mp4'' = ''1''"
  "first_char ''plain.mp4'' = ''p''" "first_char ''A_1.mp4.mp4'' = ''A''"
  "first_char ''MMAudio_-5.mp4'' = ''M''" "first_char ''MMAudio_3.mp4'' = ''M''"
  by (simp_all add: first_char_def cp_len_def is_continuation_def)

lemma sample_isdigit_values:
  "sample_isdigit ''1''" "sample_isdigit ''2''" "sample_isdigit ''3''" "sample_isdigit ''10''"
  "\<not> sample_isdigit ''-5''" "\<not> sample_isdigit ''O''" "\<not> sample_isdigit ''V''"
  "\<not> sample_isdigit ''M''" "\<not> sample_isdigit ''p''" "\<not> sample_isdigit ''A''"
  by (simp_all add: sample_isdigit_def)

text \<open>
  C5, as claimed, fails: for a name in which \<open>.mp4\<close> occurs before the extension
  too, the id is not the last token with the extension stripped.
\<close>

theorem extract_video_ids_and_models_counterexample:
  "extract_video_ids_and_models sample_isdigit (Some [''A_1.mp4.mp4''])
     = Inr [(''1'', [(''A'', ''videos/demo_show/A_1.mp4.mp4'')])] \<and>
   last (py_split (CHR ''_'') (strip_extension ''A_1.mp4.mp4'')) = ''1.mp4''"
  by (simp add: extract_video_ids_and_models_def glob_mp4_def endswith_def first_char_samples
      sample_isdigit_values startswith_def py_split_def group_add_def strip_extension_def)

text \<open>The amended C5 on one name of each shape.\<close>

theorem extract_video_ids_and_models_policy_witness:
  "extract_video_ids_and_models sample_isdigit
     (Some [''Ours__128d_200k__12.mp4'', ''V_AURA_x_12.mp4'', ''MMAudio_abc_7.mp4'',
            ''1-1.mp4'', ''plain.mp4'', ''notes_1.txt''])
     = Inr [(''12'', [(''HIFI-Foley'', ''videos/demo_show/Ours__128d_200k__12.mp4''),
                     (''V_AURA'', ''videos/demo_show/V_AURA_x_12.mp4'')]),
            (''7'', [(''MMAudio'', ''videos/demo_show/MMAudio_abc_7.mp4'')])]"
proof -
  have "fold (add_file sample_isdigit)
     (glob_mp4 (Some [''Ours__128d_200k__12.mp4'', ''V_AURA_x_12.mp4'', ''MMAudio_abc_7.mp4'',
            ''1-1.mp4'', ''plain.mp4'', ''notes_1.txt''])) []
     = [(''12'', [(''HIFI-Foley'', ''videos/demo_show/Ours__128d_200k__12.mp4''),
                     (''V_AURA'', ''videos/demo_show/V_AURA_x_12.mp4'')]),
            (''7'', [(''MMAudio'', ''videos/demo_show/MMAudio_abc_7.mp4'')])]"
    by (simp add: glob_mp4_def endswith_def add_file_def parse_filename_def first_char_samples
        sample_isdigit_values startswith_def py_split_def group_add_def)
  then show ?thesis
    using extract_video_ids_and_models_policy
      [of sample_isdigit "Some [''Ours__128d_200k__12.mp4'', ''V_AURA_x_12.mp4'', ''MMAudio_abc_7.mp4'',
            ''1-1.mp4'', ''plain.mp4'', ''notes_1.txt'']"]
    by (simp only:)
qed

section \<open>Properties of the order of the entries\<close>












end
